theory Spec2Isabelle
  imports Main "HOL-Library.Sublist"
begin

section \<open>JavaScript values\<close>

text \<open>
  The polling engine is the function \<open>pollWorkflow\<close> of the server (lines 157 to 511). The
  values it handles are decoded JSON bodies. A string is a list of characters; a character
  stands for the code point of the same number (U+0000 to U+00FF). A number is kept as the
  text that \<open>JSON.stringify\<close> prints for it (\<open>''0''\<close> for zero): the engine only tests
  numbers for truthiness and prints them.
\<close>

datatype json =
    JNull
  | JBool bool
  | JNum string
  | JStr string
  | JArr "json list"
  | JObj "(string \<times> json) list"

text \<open>
  \<open>getp k v\<close> is the property read \<open>v.k\<close> on a value that is not \<open>null\<close>; \<open>None\<close> is
  \<open>undefined\<close>. It is used for the keys \<open>executionUrl\<close>, \<open>finished\<close> and \<open>data\<close> only,
  which arrays, strings, numbers and booleans do not have. An object lists its own
  properties in enumeration order, each key once. Reading a property of \<open>null\<close> throws, which
  the callers of \<open>getp\<close> model themselves.
\<close>

fun getp :: "string \<Rightarrow> json \<Rightarrow> json option" where
  "getp k (JObj kvs) = map_of kvs k"
| "getp k v = None"

text \<open>Truthiness of a value, \<open>None\<close> being \<open>undefined\<close>.\<close>

fun truthy :: "json option \<Rightarrow> bool" where
  "truthy None = False"
| "truthy (Some JNull) = False"
| "truthy (Some (JBool b)) = b"
| "truthy (Some (JNum n)) = (n \<noteq> ''0'')"
| "truthy (Some (JStr s)) = (s \<noteq> [])"
| "truthy (Some (JArr xs)) = True"
| "truthy (Some (JObj kvs)) = True"

subsection \<open>Strings\<close>

definition e_acute :: char where
  "e_acute = CHR 0xE9"

definition o_circ :: char where
  "o_circ = CHR 0xF4"

definition apostrophe :: char where
  "apostrophe = CHR 0x27"

text \<open>\<open>String.prototype.toLowerCase\<close> on the code points U+0000 to U+00FF.\<close>

definition lower_char :: "char \<Rightarrow> char" where
  "lower_char c =
     (let n = (of_char c :: nat)
      in if (65 \<le> n \<and> n \<le> 90) \<or> (192 \<le> n \<and> n \<le> 214) \<or> (216 \<le> n \<and> n \<le> 222)
         then char_of (n + 32) else c)"

definition toLowerCase :: "string \<Rightarrow> string" where
  "toLowerCase s = map lower_char s"

fun starts_with :: "string \<Rightarrow> string \<Rightarrow> bool" where
  "starts_with s [] = True"
| "starts_with [] (m # ms) = False"
| "starts_with (c # cs) (m # ms) = (c = m \<and> starts_with cs ms)"

text \<open>\<open>String.prototype.includes\<close>.\<close>

fun str_includes :: "string \<Rightarrow> string \<Rightarrow> bool" where
  "str_includes [] m = (m = [])"
| "str_includes (c # cs) m = (starts_with (c # cs) m \<or> str_includes cs m)"

text \<open>\<open>s.split('/')\<close>, \<open>xs.join('/')\<close> and the printing of an integer in a template literal.\<close>

fun split_on :: "char \<Rightarrow> string \<Rightarrow> string list" where
  "split_on sep [] = [[]]"
| "split_on sep (c # cs) =
     (if c = sep then [] # split_on sep cs
      else (case split_on sep cs of
              [] \<Rightarrow> [[c]]
            | p # ps \<Rightarrow> (c # p) # ps))"

fun join :: "char \<Rightarrow> string list \<Rightarrow> string" where
  "join sep [] = []"
| "join sep [p] = p"
| "join sep (p # q # ps) = p @ sep # join sep (q # ps)"

definition digit_char :: "nat \<Rightarrow> char" where
  "digit_char d = char_of (48 + d)"

function show_nat :: "nat \<Rightarrow> string" where
  "show_nat n = (if n < 10 then [digit_char n] else show_nat (n div 10) @ [digit_char (n mod 10)])"
  by pat_completeness auto
termination
  by (relation "measure id") auto

definition show_int :: "int \<Rightarrow> string" where
  "show_int i = (if i < 0 then CHR ''-'' # show_nat (nat (- i)) else show_nat (nat i))"

text \<open>
  \<open>Math.round(x / d)\<close> for an integer \<open>x\<close> and \<open>d\<close> one of 1000 and 60000: rounding to the
  nearest integer, a half going up.
\<close>

definition round_div :: "int \<Rightarrow> int \<Rightarrow> int" where
  "round_div x d = (2 * x + d) div (2 * d)"

subsection \<open>\<open>JSON.stringify\<close>\<close>

definition hex_digit :: "nat \<Rightarrow> char" where
  "hex_digit d = (if d < 10 then char_of (48 + d) else char_of (87 + d))"

definition quote_char :: "char \<Rightarrow> string" where
  "quote_char c =
     (let n = (of_char c :: nat)
      in if n = 34 then [CHR 0x5C, CHR 0x22]
         else if n = 92 then [CHR 0x5C, CHR 0x5C]
         else if n = 8 then [CHR 0x5C, CHR ''b'']
         else if n = 12 then [CHR 0x5C, CHR ''f'']
         else if n = 10 then [CHR 0x5C, CHR ''n'']
         else if n = 13 then [CHR 0x5C, CHR ''r'']
         else if n = 9 then [CHR 0x5C, CHR ''t'']
         else if n < 32 then [CHR 0x5C, CHR ''u'', CHR ''0'', CHR ''0'', hex_digit (n div 16), hex_digit (n mod 16)]
         else [c])"

definition quote :: "string \<Rightarrow> string" where
  "quote s = CHR 0x22 # concat (map quote_char s) @ [CHR 0x22]"

fun stringify :: "json \<Rightarrow> string"
and stringify_items :: "json list \<Rightarrow> string"
and stringify_members :: "(string \<times> json) list \<Rightarrow> string" where
  "stringify JNull = ''null''"
| "stringify (JBool b) = (if b then ''true'' else ''false'')"
| "stringify (JNum n) = n"
| "stringify (JStr s) = quote s"
| "stringify (JArr xs) = ''['' @ stringify_items xs @ '']''"
| "stringify (JObj kvs) = ''{'' @ stringify_members kvs @ ''}''"
| "stringify_items [] = []"
| "stringify_items [x] = stringify x"
| "stringify_items (x # y # ys) = stringify x @ '','' @ stringify_items (y # ys)"
| "stringify_members [] = []"
| "stringify_members [(k, v)] = quote k @ '':'' @ stringify v"
| "stringify_members ((k, v) # kv # kvs) = quote k @ '':'' @ stringify v @ '','' @ stringify_members (kv # kvs)"

section \<open>Response classifier and poll scheduler\<close>

record analysis =
  isError :: bool
  errorType :: "string option"
  message :: "string option"
  severity :: "string option"

definition no_error :: analysis where
  "no_error = \<lparr>isError = False, errorType = None, message = None, severity = None\<rparr>"

text \<open>
  \<open>analyzeN8NResponse\<close> (lines 184 to 229). The guard \<open>!data || typeof data !== 'object'\<close>
  lets objects and arrays through.
\<close>

fun is_object :: "json \<Rightarrow> bool" where
  "is_object (JArr xs) = True"
| "is_object (JObj kvs) = True"
| "is_object v = False"

definition analyzeN8NResponse :: "json \<Rightarrow> analysis" where
  "analyzeN8NResponse d =
     (if \<not> is_object d then no_error
      else let dataStr = toLowerCase (stringify d)
           in if str_includes dataStr ''exit code: 1'' then
                \<lparr>isError = True, errorType = Some ''workflow_error'',
                 message = Some (''Le workflow N8N a '' @ e_acute # ''chou'' @ e_acute # '' (exit code: 1)''),
                 severity = Some ''critical''\<rparr>
              else if str_includes dataStr ''process finished with an error'' then
                \<lparr>isError = True, errorType = Some ''process_error'',
                 message = Some (''Le processus N8N s'' @ apostrophe # ''est termin'' @ e_acute # '' avec une erreur''),
                 severity = Some ''critical''\<rparr>
              else if str_includes dataStr ''timeout'' \<or> str_includes dataStr ''timed out'' then
                \<lparr>isError = True, errorType = Some ''n8n_timeout'',
                 message = Some (''Timeout c'' @ o_circ # ''t'' @ e_acute # '' N8N''),
                 severity = Some ''warning''\<rparr>
              else no_error)"

text \<open>\<open>getPollingInterval\<close> (lines 175 to 182), in milliseconds.\<close>

definition getPollingInterval :: "nat \<Rightarrow> bool \<Rightarrow> nat" where
  "getPollingInterval pollCount hasError =
     (if hasError then 15000
      else if pollCount < 5 then 3000
      else if pollCount < 20 then 5000
      else if pollCount < 60 then 10000
      else if pollCount < 120 then 15000
      else 20000)"

section \<open>The polling engine\<close>

subsection \<open>Events, environment and state\<close>

text \<open>
  A payload is the object literal handed to \<open>sendEvent\<close>, key by key. The trace of a run
  lists, in order, the calls of \<open>sendEvent\<close>, the GET requests issued and the waits.
  \<open>sendEvent\<close> and the logger are taken to return normally; the calls of the logger are left
  out, except where the evaluation of their arguments throws.
\<close>

datatype pval = PUndefined | PNull | PStr string | PNum int | PBool bool | PDoc json

type_synonym payload = "(string \<times> pval) list"

datatype action = Emit string payload | Get string | Sleep nat

text \<open>An error object: \<open>error.message\<close> and \<open>error.code\<close>.\<close>

datatype js_error = JsError string "string option"

datatype fetch_result = Failed js_error | Response nat json

text \<open>
  The environment of a run: \<open>fetch env n\<close> is what \<open>axios.get\<close> does when it is called
  in cycle number \<open>n\<close> (it rejects, or resolves with a status and a decoded body), and
  \<open>now env k\<close> is the value of the \<open>k\<close>-th read of \<open>Date.now()\<close>, the read of \<open>startTime\<close>
  being number 0.
\<close>

record env =
  fetch :: "nat \<Rightarrow> fetch_result"
  now :: "nat \<Rightarrow> int"

record state =
  data :: json
  pollCount :: nat
  consecutiveErrors :: nat
  workflowFailed :: bool
  ticks :: nat

datatype ctl = Next | Break | Throw js_error

datatype outcome = Returned json payload | Thrown js_error

definition maxPolls :: nat where
  "maxPolls = 1000"

definition maxConsecutiveErrors :: nat where
  "maxConsecutiveErrors = 10"

definition N8N_WEBHOOK_URL :: string where
  "N8N_WEBHOOK_URL = ''https://n8n.srv903010.hstgr.cloud/''"

definition full_url :: "string \<Rightarrow> string" where
  "full_url u = N8N_WEBHOOK_URL @ join (CHR ''/'') (drop 3 (split_on (CHR ''/'') u))"

definition secs :: "int \<Rightarrow> string" where
  "secs ms = show_int (round_div ms 1000) @ ''s''"

definition of_opt :: "json option \<Rightarrow> pval" where
  "of_opt v = (case v of None \<Rightarrow> PUndefined | Some x \<Rightarrow> PDoc x)"

definition of_str :: "string option \<Rightarrow> pval" where
  "of_str v = (case v of None \<Rightarrow> PNull | Some x \<Rightarrow> PStr x)"

text \<open>The three \<open>TypeError\<close>s that the body can raise, with the messages of V8.\<close>

definition split_type_error :: js_error where
  "split_type_error = JsError ''data.executionUrl.split is not a function'' None"

definition null_finished_error :: js_error where
  "null_finished_error =
     JsError (''Cannot read properties of null (reading '' @ apostrophe # ''finished'' @ apostrophe # '')'') None"

definition null_url_error :: js_error where
  "null_url_error =
     JsError (''Cannot read properties of null (reading '' @ apostrophe # ''executionUrl'' @ apostrophe # '')'') None"

subsection \<open>The events\<close>

definition step_event :: "state \<Rightarrow> string \<Rightarrow> int \<Rightarrow> action" where
  "step_event s fullUrl elapsedTime =
     Emit ''step''
       [(''message'', PStr (''V'' @ e_acute # ''rification '' @ show_nat (pollCount s) @ ''/''
            @ show_nat maxPolls @ '' ('' @ secs elapsedTime @ '')'')),
        (''executionUrl'', PStr fullUrl),
        (''pollCount'', PNum (int (pollCount s))),
        (''elapsedTime'', PStr (secs elapsedTime)),
        (''consecutiveErrors'', PNum (int (consecutiveErrors s))),
        (''status'', PStr (if workflowFailed s then ''post-error'' else ''normal'')),
        (''note'', PStr (''AUCUN TIMEOUT - Polling illimit'' @ [e_acute]))]"

definition too_many_errors_event :: "state \<Rightarrow> action" where
  "too_many_errors_event s =
     Emit ''too_many_errors''
       [(''message'', PStr (''Trop d'' @ apostrophe # ''erreurs cons'' @ e_acute # ''cutives (''
            @ show_nat (consecutiveErrors s) @ '')'')),
        (''pollCount'', PNum (int (pollCount s)))]"

definition n8n_error_detected_event :: "analysis \<Rightarrow> nat \<Rightarrow> json \<Rightarrow> action" where
  "n8n_error_detected_event a pc d =
     Emit ''n8n_error_detected''
       [(''errorType'', of_str (errorType a)),
        (''message'', of_str (message a)),
        (''severity'', of_str (severity a)),
        (''pollCount'', PNum (int pc)),
        (''data'', PDoc d),
        (''willContinue'', PBool True),
        (''note'', PStr (''Erreur d'' @ e_acute # ''tect'' @ e_acute # ''e mais polling continue''))]"

definition error_persisting_event :: "analysis \<Rightarrow> nat \<Rightarrow> json \<Rightarrow> action" where
  "error_persisting_event a pc d =
     Emit ''error_persisting''
       [(''errorType'', of_str (errorType a)),
        (''message'', of_str (message a)),
        (''pollCount'', PNum (int pc)),
        (''data'', PDoc d),
        (''note'', PStr (''Erreur toujours pr'' @ e_acute # ''sente, polling continue''))]"

definition update_event :: "state \<Rightarrow> analysis \<Rightarrow> nat \<Rightarrow> int \<Rightarrow> int \<Rightarrow> action" where
  "update_event s a status pollDuration elapsed =
     Emit ''update''
       [(''donnee'', of_opt (getp ''data'' (data s))),
        (''pollCount'', PNum (int (pollCount s))),
        (''pollDuration'', PStr (show_int pollDuration @ ''ms'')),
        (''elapsedTime'', PStr (secs elapsed)),
        (''nextPollIn'', PStr (show_nat (getPollingInterval (pollCount s) (isError a) div 1000) @ ''s'')),
        (''serverStatus'', PNum (int status)),
        (''stability'', PStr ''no-timeout''),
        (''hasError'', PBool (isError a)),
        (''workflowStatus'', PStr (if workflowFailed s then ''error-but-continuing''
            else if truthy (getp ''finished'' (data s)) then ''completed'' else ''running'')),
        (''workflowFailed'', PBool (workflowFailed s)),
        (''note'', PStr [])]"

definition workflow_completed_event :: "state \<Rightarrow> int \<Rightarrow> action" where
  "workflow_completed_event s totalTime =
     Emit ''workflow_completed''
       [(''message'', PStr (if workflowFailed s
            then ''Workflow termin'' @ e_acute # '' (avec erreurs d'' @ e_acute # ''tect'' @ e_acute
                 # ''es mais polling complet)''
            else ''Workflow termin'' @ e_acute # '' avec succ'' @ CHR 0xE8 # ''s'')),
        (''totalPolls'', PNum (int (pollCount s))),
        (''totalTime'', PStr (secs totalTime)),
        (''finalStatus'', PStr (if workflowFailed s then ''completed-with-errors'' else ''completed-successfully'')),
        (''hadErrors'', PBool (workflowFailed s)),
        (''finalData'', PDoc (data s)),
        (''note'', PStr (''Aucun timeout appliqu'' @ [e_acute]))]"

definition polling_error_event :: "state \<Rightarrow> js_error \<Rightarrow> action" where
  "polling_error_event s err =
     (case err of JsError msg code \<Rightarrow>
        Emit ''polling_error''
          [(''error'', PStr msg),
           (''errorCode'', (case code of None \<Rightarrow> PUndefined | Some c \<Rightarrow> PStr c)),
           (''pollCount'', PNum (int (pollCount s))),
           (''consecutiveErrors'', PNum (int (consecutiveErrors s))),
           (''maxErrorsAllowed'', PNum (int maxConsecutiveErrors)),
           (''willRetry'', PBool (consecutiveErrors s < maxConsecutiveErrors)),
           (''nextAction'', PStr ''retry_with_delay''),
           (''note'', PStr (''Erreur r'' @ e_acute # ''seau - Retry automatique''))])"

text \<open>The reason of the end and the final status (lines 451 to 470).\<close>

definition endReason :: "state \<Rightarrow> string \<times> string" where
  "endReason s =
     (if truthy (getp ''finished'' (data s)) \<and> \<not> workflowFailed s then (''completed'', ''success'')
      else if truthy (getp ''finished'' (data s)) \<and> workflowFailed s
        then (''completed_with_errors'', ''partial_success'')
      else if pollCount s \<ge> maxPolls then (''max_polls_reached'', ''max_attempts'')
      else if consecutiveErrors s \<ge> maxConsecutiveErrors
        then (''too_many_network_errors'', ''network_failure'')
      else (''interrupted'', ''interrupted''))"

definition polling_ended_event :: "state \<Rightarrow> int \<Rightarrow> action" where
  "polling_ended_event s totalElapsedTime =
     Emit ''polling_ended''
       [(''totalPolls'', PNum (int (pollCount s))),
        (''totalTime'', PStr (secs totalElapsedTime)),
        (''totalMinutes'', PStr (show_int (round_div totalElapsedTime 60000) @ ''min'')),
        (''finished'', of_opt (getp ''finished'' (data s))),
        (''workflowFailed'', PBool (workflowFailed s)),
        (''reason'', PStr (fst (endReason s))),
        (''consecutiveErrors'', PNum (int (consecutiveErrors s))),
        (''success'', PBool (getp ''finished'' (data s) = Some (JBool True))),
        (''finalData'', PDoc (data s)),
        (''finalStatus'', PStr (snd (endReason s))),
        (''note'', PStr (''Polling termin'' @ e_acute # '' naturellement - Aucun timeout''))]"

text \<open>The \<open>_meta\<close> block of the returned object.\<close>

definition meta :: "state \<Rightarrow> int \<Rightarrow> payload" where
  "meta s totalElapsedTime =
     [(''success'', PBool (getp ''finished'' (data s) = Some (JBool True))),
      (''failed'', PBool (workflowFailed s)),
      (''reason'', PStr (fst (endReason s))),
      (''totalPolls'', PNum (int (pollCount s))),
      (''totalTime'', PNum (round_div totalElapsedTime 1000)),
      (''totalMinutes'', PNum (round_div totalElapsedTime 60000)),
      (''noTimeoutApplied'', PBool True)]"

subsection \<open>One cycle of the loop\<close>

text \<open>
  The \<open>catch\<close> block (lines 411 to 446). It counts the error, then builds the arguments
  of \<open>logger.error\<close>, among them \<open>data.executionUrl\<close>: when \<open>data\<close> is \<open>null\<close> this read
  throws inside the handler, and the exception leaves \<open>pollWorkflow\<close>.
\<close>

definition catch_block :: "state \<Rightarrow> js_error \<Rightarrow> action list \<times> state \<times> ctl" where
  "catch_block s err =
     (let s' = s\<lparr>consecutiveErrors := consecutiveErrors s + 1\<rparr>
      in if data s' = JNull then ([], s', Throw null_url_error)
         else ([polling_error_event s' err, Sleep 15000], s', Next))"

text \<open>
  The \<open>try\<close> block after \<open>axios.get\<close> has resolved (lines 295 to 409). \<open>s\<close> is the state
  at that point and \<open>startPoll\<close> the clock read before the request. The arguments of
  \<open>logger.debug\<close> read \<open>data.finished\<close>, which throws for the body \<open>null\<close>.
\<close>

definition process_response :: "env \<Rightarrow> state \<Rightarrow> int \<Rightarrow> nat \<Rightarrow> json \<Rightarrow> action list \<times> state \<times> ctl" where
  "process_response env s startPoll status d =
     (let pollDuration = now env (ticks s) - startPoll;
          s1 = s\<lparr>ticks := ticks s + 1, consecutiveErrors := 0, data := d\<rparr>;
          errorAnalysis = analyzeN8NResponse d
      in if d = JNull then catch_block s1 null_finished_error
         else
           let errs = (if isError errorAnalysis
                       then (if \<not> workflowFailed s1
                             then [n8n_error_detected_event errorAnalysis (pollCount s1) d]
                             else [error_persisting_event errorAnalysis (pollCount s1) d])
                       else []);
               s2 = s1\<lparr>workflowFailed := (workflowFailed s1 \<or> isError errorAnalysis),
                        ticks := ticks s1 + 1\<rparr>;
               update = update_event s2 errorAnalysis status pollDuration (now env (ticks s1) - now env 0)
           in if \<not> truthy (getp ''finished'' d)
              then (errs @ [update, Sleep (getPollingInterval (pollCount s2) (isError errorAnalysis))],
                    s2, Next)
              else (errs @ [update, workflow_completed_event s2 (now env (ticks s2) - now env 0)],
                    s2\<lparr>ticks := ticks s2 + 1\<rparr>, Next))"

definition prepend :: "action list \<Rightarrow> action list \<times> state \<times> ctl \<Rightarrow> action list \<times> state \<times> ctl" where
  "prepend as r = (case r of (bs, s, c) \<Rightarrow> (as @ bs, s, c))"

text \<open>
  The body of the \<open>while\<close> loop (lines 232 to 446). \<open>data.executionUrl\<close> is truthy here;
  unless it is a string, \<open>.split\<close> is not a function and the call throws into the
  \<open>catch\<close> block before any request is made.
\<close>

definition iteration :: "env \<Rightarrow> state \<Rightarrow> action list \<times> state \<times> ctl" where
  "iteration env s =
     (let s1 = s\<lparr>pollCount := pollCount s + 1, ticks := ticks s + 1\<rparr>;
          elapsedTime = now env (ticks s) - now env 0
      in if consecutiveErrors s1 \<ge> maxConsecutiveErrors
         then ([too_many_errors_event s1], s1, Break)
         else (case getp ''executionUrl'' (data s1) of
                 Some (JStr u) \<Rightarrow>
                   (let fullUrl = full_url u;
                        startPoll = now env (ticks s1);
                        s2 = s1\<lparr>ticks := ticks s1 + 1\<rparr>
                    in prepend [step_event s1 fullUrl elapsedTime, Get fullUrl]
                         (case fetch env (pollCount s1) of
                            Failed err \<Rightarrow> catch_block s2 err
                          | Response status d \<Rightarrow> process_response env s2 startPoll status d))
               | _ \<Rightarrow> catch_block s1 split_type_error))"

subsection \<open>The loop and the function\<close>

definition loop_cond :: "state \<Rightarrow> bool" where
  "loop_cond s \<longleftrightarrow>
     truthy (getp ''executionUrl'' (data s)) \<and> \<not> truthy (getp ''finished'' (data s))
     \<and> pollCount s < maxPolls"

lemma catch_block_pollCount: "pollCount (fst (snd (catch_block s err))) = pollCount s"
  by (simp add: catch_block_def Let_def)

lemma process_response_pollCount:
  "pollCount (fst (snd (process_response env s startPoll status d))) = pollCount s"
  by (simp add: process_response_def catch_block_def Let_def)

lemma iteration_pollCount: "pollCount (fst (snd (iteration env s))) = Suc (pollCount s)"
  by (simp add: iteration_def Let_def prepend_def split_beta catch_block_pollCount
      process_response_pollCount split: option.split json.split fetch_result.split)

text \<open>
  The \<open>while\<close> loop (line 231). Its result is the trace, the final state and the exception
  that left the loop, if any. The test reads \<open>data.executionUrl\<close>, which would throw on
  \<open>null\<close>.
\<close>

function loop :: "env \<Rightarrow> state \<Rightarrow> action list \<times> state \<times> js_error option" where
  "loop env s =
     (if data s = JNull then ([], s, Some null_url_error)
      else if loop_cond s then
        (case iteration env s of
           (as, s', Next) \<Rightarrow> (case loop env s' of (bs, s'', r) \<Rightarrow> (as @ bs, s'', r))
         | (as, s', Break) \<Rightarrow> (as, s', None)
         | (as, s', Throw e) \<Rightarrow> (as, s', Some e))
      else ([], s, None))"
  by pat_completeness auto
termination
proof (relation "measure (\<lambda>(env, s). maxPolls - pollCount s)")
  show "wf (measure (\<lambda>(env, s). maxPolls - pollCount s))"
    by simp
next
  fix env s as y s' c
  assume "loop_cond s" and "(as, y) = iteration env s" and "(s', c) = y"
  then have "pollCount s' = Suc (pollCount s)" and "pollCount s < maxPolls"
    using iteration_pollCount [of env s] by (auto simp: loop_cond_def dest: sym)
  then show "((env, s'), env, s) \<in> measure (\<lambda>(env, s). maxPolls - pollCount s)"
    by simp
qed

text \<open>
  \<open>pollWorkflow\<close> (lines 157 to 511). The returned object \<open>{...data, _meta}\<close> is given as
  the last document and the \<open>_meta\<close> block.
\<close>

definition initial :: "json \<Rightarrow> state" where
  "initial executionUrl =
     \<lparr>data = JObj [(''executionUrl'', executionUrl), (''finished'', JBool False)],
      pollCount = 0, consecutiveErrors = 0, workflowFailed = False, ticks = 1\<rparr>"

definition pollWorkflow :: "env \<Rightarrow> json \<Rightarrow> action list \<times> outcome" where
  "pollWorkflow env executionUrl =
     (case loop env (initial executionUrl) of
        (as, s, Some e) \<Rightarrow> (as, Thrown e)
      | (as, s, None) \<Rightarrow>
          (let totalElapsedTime = now env (ticks s) - now env 0
           in (as @ [polling_ended_event s totalElapsedTime],
               Returned (data s) (meta s totalElapsedTime))))"

section \<open>Runs of the engine\<close>

text \<open>
  The claims speak of the cycles of a run, of what a cycle fetched and of the events it
  emitted. \<open>acts\<close>, \<open>nxt\<close> and \<open>ctl_of\<close> are the three components of one cycle;
  \<open>fetched env s\<close> is the outcome of the request that the cycle entered in state \<open>s\<close>
  issues, and \<open>None\<close> when it issues none (the guard on consecutive errors fires, or
  \<open>executionUrl\<close> is not a string).
\<close>

definition acts :: "env \<Rightarrow> state \<Rightarrow> action list" where
  "acts env s = fst (iteration env s)"

definition nxt :: "env \<Rightarrow> state \<Rightarrow> state" where
  "nxt env s = fst (snd (iteration env s))"

definition ctl_of :: "env \<Rightarrow> state \<Rightarrow> ctl" where
  "ctl_of env s = snd (snd (iteration env s))"

definition fetched :: "env \<Rightarrow> state \<Rightarrow> fetch_result option" where
  "fetched env s =
     (if consecutiveErrors s \<ge> maxConsecutiveErrors then None
      else (case getp ''executionUrl'' (data s) of
              Some (JStr u) \<Rightarrow> Some (fetch env (pollCount s + 1))
            | _ \<Rightarrow> None))"

text \<open>
  \<open>cycles env s\<close> lists the states in which the body of the loop is entered, from \<open>s\<close>
  on: the loop test holds in each, and each but the last is followed by the state its cycle
  leaves. The lemmas \<open>loop_trace\<close>, \<open>loop_final\<close> and \<open>loop_result\<close> below tie the list
  to \<open>loop\<close>, and \<open>requests_of_cycle\<close> ties \<open>fetched\<close> to the requests in the trace.
\<close>

function cycles :: "env \<Rightarrow> state \<Rightarrow> state list" where
  "cycles env s =
     (if data s \<noteq> JNull \<and> loop_cond s
      then s # (if ctl_of env s = Next then cycles env (nxt env s) else [])
      else [])"
  by pat_completeness auto
termination
proof (relation "measure (\<lambda>(env, s). maxPolls - pollCount s)")
  show "wf (measure (\<lambda>(env, s). maxPolls - pollCount s))"
    by simp
next
  fix env s
  assume "data s \<noteq> JNull \<and> loop_cond s"
  then have "pollCount (nxt env s) = Suc (pollCount s)" and "pollCount s < maxPolls"
    using iteration_pollCount [of env s] by (auto simp: loop_cond_def nxt_def)
  then show "((env, nxt env s), env, s) \<in> measure (\<lambda>(env, s). maxPolls - pollCount s)"
    by simp
qed

declare loop.simps [simp del] cycles.simps [simp del]

text \<open>Reading a trace: the events of a given name, the requests, and what follows an event.\<close>

fun event_named :: "string \<Rightarrow> action \<Rightarrow> bool" where
  "event_named n (Emit m p) = (m = n)"
| "event_named n a = False"

fun is_get :: "action \<Rightarrow> bool" where
  "is_get (Get u) = True"
| "is_get a = False"

definition after_event :: "string \<Rightarrow> action list \<Rightarrow> action list" where
  "after_event n tr = tl (dropWhile (\<lambda>a. \<not> event_named n a) tr)"

definition is_error_event :: "action \<Rightarrow> bool" where
  "is_error_event a \<longleftrightarrow> event_named ''n8n_error_detected'' a \<or> event_named ''error_persisting'' a"

text \<open>The name of an event in the trace, and a field of its payload.\<close>

fun event_name :: "action \<Rightarrow> string" where
  "event_name (Emit n p) = n"
| "event_name a = []"

fun payload_field :: "string \<Rightarrow> action \<Rightarrow> pval option" where
  "payload_field k (Emit n p) = map_of p k"
| "payload_field k a = None"

text \<open>
  A cycle whose request resolved with the body \<open>d\<close>: the state it leaves when \<open>d\<close> is
  not finished, the error event it emits when \<open>d\<close> is classified as an error, whether it
  saw an error at all, and the body itself.
\<close>

definition responded :: "state \<Rightarrow> json \<Rightarrow> state" where
  "responded s d =
     s\<lparr>pollCount := Suc (pollCount s), consecutiveErrors := 0, data := d,
       workflowFailed := (workflowFailed s \<or> isError (analyzeN8NResponse d)),
       ticks := Suc (Suc (Suc (Suc (ticks s))))\<rparr>"

definition error_event :: "state \<Rightarrow> json \<Rightarrow> action" where
  "error_event s d =
     (if workflowFailed s
      then error_persisting_event (analyzeN8NResponse d) (Suc (pollCount s)) d
      else n8n_error_detected_event (analyzeN8NResponse d) (Suc (pollCount s)) d)"

definition err_cycle :: "env \<Rightarrow> state \<Rightarrow> bool" where
  "err_cycle env s =
     (case fetched env s of Some (Response st d) \<Rightarrow> isError (analyzeN8NResponse d) | _ \<Rightarrow> False)"

definition body :: "env \<Rightarrow> state \<Rightarrow> json" where
  "body env s = (case fetched env s of Some (Response st d) \<Rightarrow> d | _ \<Rightarrow> JNull)"

text \<open>The error events that a cycle with a failing document emits, first and later.\<close>

definition first_error_event :: "env \<Rightarrow> state \<Rightarrow> action" where
  "first_error_event env c =
     n8n_error_detected_event (analyzeN8NResponse (body env c)) (Suc (pollCount c)) (body env c)"

definition later_error_event :: "env \<Rightarrow> state \<Rightarrow> action" where
  "later_error_event env c =
     error_persisting_event (analyzeN8NResponse (body env c)) (Suc (pollCount c)) (body env c)"

text \<open>A field of the \<open>_meta\<close> block of a returned value.\<close>

definition returned_field :: "string \<Rightarrow> outcome \<Rightarrow> pval option" where
  "returned_field k r = (case r of Returned d m \<Rightarrow> map_of m k | Thrown e \<Rightarrow> None)"

section \<open>Concrete runs\<close>

text \<open>A run of two polls: the first document is still running, the second is finished.\<close>

definition running_doc :: json where
  "running_doc = JObj [(''executionUrl'', JStr ''https://n8n.srv903010.hstgr.cloud/webhook/abc''),
                       (''finished'', JBool False)]"

definition finished_doc :: json where
  "finished_doc = JObj [(''finished'', JBool True), (''data'', JObj [(''ok'', JBool True)])]"

definition two_polls :: env where
  "two_polls = \<lparr>fetch = (\<lambda>n. if n = 1 then Response 200 running_doc else Response 200 finished_doc),
                 now = (\<lambda>k. 1000 * int k)\<rparr>"

definition start_url :: json where
  "start_url = JStr ''https://n8n.srv903010.hstgr.cloud/webhook/abc''"

definition second_cycle :: state where
  "second_cycle = \<lparr>data = running_doc, pollCount = 1, consecutiveErrors = 0, workflowFailed = False,
                    ticks = 5\<rparr>"

text \<open>
  A run of three polls: two documents that report a failed process and are still running,
  then a finished one.
\<close>

definition failing_doc :: json where
  "failing_doc = JObj [(''executionUrl'', JStr ''https://n8n.srv903010.hstgr.cloud/webhook/abc''),
                       (''finished'', JBool False),
                       (''data'', JObj [(''stderr'', JStr ''Exit code: 1'')])]"

definition three_polls :: env where
  "three_polls = \<lparr>fetch = (\<lambda>n. if n < 3 then Response 200 failing_doc else Response 200 finished_doc),
                   now = (\<lambda>k. 1000 * int k)\<rparr>"

definition after_first_error :: state where
  "after_first_error = \<lparr>data = failing_doc, pollCount = 1, consecutiveErrors = 0,
                         workflowFailed = True, ticks = 5\<rparr>"

definition after_second_error :: state where
  "after_second_error = \<lparr>data = failing_doc, pollCount = 2, consecutiveErrors = 0,
                          workflowFailed = True, ticks = 9\<rparr>"

text \<open>
  A run with two failed requests, a successful one, and then the body \<open>null\<close>; and a run
  whose first document has no \<open>executionUrl\<close>.
\<close>

definition reset_error :: js_error where
  "reset_error = JsError ''socket hang up'' (Some ''ECONNRESET'')"

definition flaky :: env where
  "flaky = \<lparr>fetch = (\<lambda>n. if n < 3 then Failed reset_error
                          else if n = 3 then Response 200 running_doc
                          else Response 200 JNull),
             now = (\<lambda>k. 1000 * int k)\<rparr>"

definition after_failures :: "nat \<Rightarrow> state" where
  "after_failures n =
     \<lparr>data = JObj [(''executionUrl'', start_url), (''finished'', JBool False)],
      pollCount = n, consecutiveErrors = n, workflowFailed = False, ticks = Suc (2 * n)\<rparr>"

definition recovered :: state where
  "recovered = \<lparr>data = running_doc, pollCount = 3, consecutiveErrors = 0, workflowFailed = False,
                 ticks = 9\<rparr>"

definition lost_url :: env where
  "lost_url = \<lparr>fetch = (\<lambda>n. Response 200 (JObj [(''finished'', JBool False)])),
                now = (\<lambda>k. 1000 * int k)\<rparr>"

text \<open>
  Documents with failure markers, and the run in which the engine receives the body
  \<open>null\<close>.
\<close>

definition both_markers :: json where
  "both_markers = JObj [(''stderr'', JStr ''Exit code: 1. Process finished with an error'')]"

definition process_doc :: json where
  "process_doc = JObj [(''message'', JStr ''Process finished with an error'')]"

definition timeout_doc :: json where
  "timeout_doc = JObj [(''error'', JStr ''Request timed out'')]"

definition null_body :: env where
  "null_body = \<lparr>fetch = (\<lambda>n. Response 200 JNull), now = (\<lambda>k. 1000 * int k)\<rparr>"

text \<open>
  A run that reaches the attempt ceiling: 990 polls of a running document, then ten
  failed requests, with the states in which its cycles start. A run in which every request
  fails.
\<close>

definition long_run :: env where
  "long_run = \<lparr>fetch = (\<lambda>n. if n \<le> 990 then Response 200 running_doc else Failed reset_error),
                now = (\<lambda>k. 1000 * int k)\<rparr>"

definition long_state :: "nat \<Rightarrow> state" where
  "long_state k =
     \<lparr>data = running_doc, pollCount = k, consecutiveErrors = k - 990, workflowFailed = False,
      ticks = (if k \<le> 990 then 1 + 4 * k else 3961 + 2 * (k - 990))\<rparr>"

definition always_failing :: env where
  "always_failing = \<lparr>fetch = (\<lambda>n. Failed reset_error), now = (\<lambda>k. 1000 * int k)\<rparr>"

section \<open>Auxiliary facts\<close>

subsection \<open>Strings\<close>

text \<open>The function \<open>str_includes\<close> decides the usual notion of a contiguous sublist.\<close>

lemma starts_with_iff: "starts_with s m \<longleftrightarrow> (\<exists>q. s = m @ q)"
  by (induction s m rule: starts_with.induct) auto

lemma str_includes_iff: "str_includes s m \<longleftrightarrow> (\<exists>p q. s = p @ m @ q)"
proof (induction s)
  case Nil
  then show ?case by simp
next
  case (Cons c cs)
  show ?case
  proof
    assume "str_includes (c # cs) m"
    then consider "starts_with (c # cs) m" | "str_includes cs m" by auto
    then show "\<exists>p q. c # cs = p @ m @ q"
    proof cases
      case 1
      then obtain q where "c # cs = m @ q" by (auto simp: starts_with_iff)
      then have "c # cs = [] @ m @ q" by simp
      then show ?thesis by blast
    next
      case 2
      then obtain p q where "cs = p @ m @ q" using Cons.IH by blast
      then have "c # cs = (c # p) @ m @ q" by simp
      then show ?thesis by blast
    qed
  next
    assume "\<exists>p q. c # cs = p @ m @ q"
    then obtain p q where pq: "c # cs = p @ m @ q" by blast
    show "str_includes (c # cs) m"
    proof (cases p)
      case Nil
      with pq have "starts_with (c # cs) m" by (auto simp: starts_with_iff)
      then show ?thesis by simp
    next
      case (Cons a p')
      with pq have "cs = p' @ m @ q" by simp
      then have "str_includes cs m" using Cons.IH by blast
      then show ?thesis by simp
    qed
  qed
qed

lemma str_includes_sublist: "str_includes s m \<longleftrightarrow> sublist m s"
  by (simp add: str_includes_iff sublist_def)

subsection \<open>One cycle\<close>

text \<open>What a cycle does, by the outcome of its request.\<close>

lemma iteration_eq: "iteration env s = (acts env s, nxt env s, ctl_of env s)"
  by (simp add: acts_def nxt_def ctl_of_def)

lemma prepend_simps [simp]:
  "fst (prepend as r) = as @ fst r"
  "fst (snd (prepend as r)) = fst (snd r)"
  "snd (snd (prepend as r)) = snd (snd r)"
  by (simp_all add: prepend_def split_beta)

lemma catch_block_simps:
  "fst (snd (catch_block s err)) = s\<lparr>consecutiveErrors := Suc (consecutiveErrors s)\<rparr>"
  "snd (snd (catch_block s err)) = (if data s = JNull then Throw null_url_error else Next)"
  "fst (catch_block s err) =
     (if data s = JNull then []
      else [polling_error_event (s\<lparr>consecutiveErrors := Suc (consecutiveErrors s)\<rparr>) err, Sleep 15000])"
  by (simp_all add: catch_block_def Let_def)

lemma process_response_state:
  assumes "d \<noteq> JNull"
  shows "data (fst (snd (process_response env s sp st d))) = d"
    and "consecutiveErrors (fst (snd (process_response env s sp st d))) = 0"
    and "pollCount (fst (snd (process_response env s sp st d))) = pollCount s"
    and "workflowFailed (fst (snd (process_response env s sp st d)))
           = (workflowFailed s \<or> isError (analyzeN8NResponse d))"
    and "snd (snd (process_response env s sp st d)) = Next"
  using assms by (simp_all add: process_response_def Let_def)

lemma process_response_null:
  "fst (snd (process_response env s sp st JNull))
     = s\<lparr>ticks := Suc (ticks s), consecutiveErrors := Suc 0, data := JNull\<rparr>"
  "snd (snd (process_response env s sp st JNull)) = Throw null_url_error"
  "fst (process_response env s sp st JNull) = []"
  by (simp_all add: process_response_def Let_def catch_block_def)

lemma iteration_request:
  assumes "consecutiveErrors s < maxConsecutiveErrors"
    and "getp ''executionUrl'' (data s) = Some (JStr u)"
  shows "iteration env s =
     prepend [step_event (s\<lparr>pollCount := Suc (pollCount s), ticks := Suc (ticks s)\<rparr>)
                (full_url u) (now env (ticks s) - now env 0), Get (full_url u)]
       (case fetch env (Suc (pollCount s)) of
          Failed err \<Rightarrow>
            catch_block (s\<lparr>pollCount := Suc (pollCount s), ticks := Suc (Suc (ticks s))\<rparr>) err
        | Response status d \<Rightarrow>
            process_response env (s\<lparr>pollCount := Suc (pollCount s), ticks := Suc (Suc (ticks s))\<rparr>)
              (now env (Suc (ticks s))) status d)"
  using assms by (simp add: iteration_def Let_def)

lemma nxt_guard:
  assumes "maxConsecutiveErrors \<le> consecutiveErrors s"
  shows "nxt env s = s\<lparr>pollCount := Suc (pollCount s), ticks := Suc (ticks s)\<rparr>"
    and "ctl_of env s = Break"
    and "acts env s = [too_many_errors_event (s\<lparr>pollCount := Suc (pollCount s), ticks := Suc (ticks s)\<rparr>)]"
  using assms by (simp_all add: nxt_def ctl_of_def acts_def iteration_def Let_def)

lemma fetched_None_iff:
  "fetched env s = None \<longleftrightarrow>
     maxConsecutiveErrors \<le> consecutiveErrors s \<or> (\<forall>u. getp ''executionUrl'' (data s) \<noteq> Some (JStr u))"
  by (auto simp: fetched_def split: option.splits json.splits)

lemma fetched_Some_iff:
  "fetched env s = Some r \<longleftrightarrow>
     consecutiveErrors s < maxConsecutiveErrors \<and> (\<exists>u. getp ''executionUrl'' (data s) = Some (JStr u))
     \<and> fetch env (Suc (pollCount s)) = r"
  by (auto simp: fetched_def split: option.splits json.splits)

lemma cycle_no_request:
  assumes "fetched env s = None" and "consecutiveErrors s < maxConsecutiveErrors" and "data s \<noteq> JNull"
  shows "nxt env s = s\<lparr>pollCount := Suc (pollCount s), ticks := Suc (ticks s),
                        consecutiveErrors := Suc (consecutiveErrors s)\<rparr>"
    and "ctl_of env s = Next"
    and "acts env s = [polling_error_event (nxt env s) split_type_error, Sleep 15000]"
  using assms
  by (auto simp: fetched_None_iff nxt_def ctl_of_def acts_def iteration_def Let_def catch_block_def
      split: option.splits json.splits)

lemma cycle_failed:
  assumes "fetched env s = Some (Failed e)" and "data s \<noteq> JNull"
  shows "nxt env s = s\<lparr>pollCount := Suc (pollCount s), ticks := Suc (Suc (ticks s)),
                        consecutiveErrors := Suc (consecutiveErrors s)\<rparr>"
    and "ctl_of env s = Next"
  using assms
  by (auto simp: fetched_Some_iff nxt_def ctl_of_def iteration_request catch_block_simps)

lemma cycle_null:
  assumes "fetched env s = Some (Response st JNull)"
  shows "consecutiveErrors (nxt env s) = 1" and "data (nxt env s) = JNull"
    and "ctl_of env s = Throw null_url_error"
  using assms
  by (auto simp: fetched_Some_iff nxt_def ctl_of_def iteration_request process_response_null)

lemma cycle_response:
  assumes "fetched env s = Some (Response st d)" and "d \<noteq> JNull"
  shows "data (nxt env s) = d" and "consecutiveErrors (nxt env s) = 0"
    and "workflowFailed (nxt env s) = (workflowFailed s \<or> isError (analyzeN8NResponse d))"
    and "ctl_of env s = Next"
  using assms
  by (auto simp: fetched_Some_iff nxt_def ctl_of_def iteration_request process_response_state)

lemma event_named_simps [simp]:
  "event_named n (step_event s u t) \<longleftrightarrow> n = ''step''"
  "event_named n (too_many_errors_event s) \<longleftrightarrow> n = ''too_many_errors''"
  "event_named n (n8n_error_detected_event a pc d) \<longleftrightarrow> n = ''n8n_error_detected''"
  "event_named n (error_persisting_event a pc d) \<longleftrightarrow> n = ''error_persisting''"
  "event_named n (update_event s a st pd el) \<longleftrightarrow> n = ''update''"
  "event_named n (workflow_completed_event s t) \<longleftrightarrow> n = ''workflow_completed''"
  "event_named n (polling_error_event s err) \<longleftrightarrow> n = ''polling_error''"
  "event_named n (polling_ended_event s t) \<longleftrightarrow> n = ''polling_ended''"
  by (auto simp: step_event_def too_many_errors_event_def n8n_error_detected_event_def
      error_persisting_event_def update_event_def workflow_completed_event_def
      polling_error_event_def polling_ended_event_def split: js_error.split)

lemma is_get_simps [simp]:
  "\<not> is_get (step_event s u t)"
  "\<not> is_get (too_many_errors_event s)"
  "\<not> is_get (n8n_error_detected_event a pc d)"
  "\<not> is_get (error_persisting_event a pc d)"
  "\<not> is_get (update_event s a st pd el)"
  "\<not> is_get (workflow_completed_event s t)"
  "\<not> is_get (polling_error_event s err)"
  "\<not> is_get (polling_ended_event s t)"
  by (auto simp: step_event_def too_many_errors_event_def n8n_error_detected_event_def
      error_persisting_event_def update_event_def workflow_completed_event_def
      polling_error_event_def polling_ended_event_def split: js_error.split)

lemma next_not_null:
  assumes "data s \<noteq> JNull" and "ctl_of env s = Next"
  shows "data (nxt env s) \<noteq> JNull"
proof (cases "fetched env s")
  case None
  show ?thesis
  proof (cases "maxConsecutiveErrors \<le> consecutiveErrors s")
    case True
    then show ?thesis using assms nxt_guard(2) [of s env] by simp
  next
    case False
    then show ?thesis using None assms cycle_no_request(1) [of env s] by simp
  qed
next
  case (Some r)
  show ?thesis
  proof (cases r)
    case (Failed e)
    then show ?thesis using Some assms cycle_failed(1) [of env s e] by simp
  next
    case (Response st d)
    show ?thesis
    proof (cases "d = JNull")
      case True
      then show ?thesis using Some Response assms cycle_null(3) [of env s st] by simp
    next
      case False
      then show ?thesis using Some Response cycle_response(1) [of env s st d] by simp
    qed
  qed
qed

lemma acts_response:
  assumes "fetched env s = Some (Response st d)" and "d \<noteq> JNull"
  shows "\<exists>u. getp ''executionUrl'' (data s) = Some (JStr u) \<and> acts env s =
     [step_event (s\<lparr>pollCount := Suc (pollCount s), ticks := Suc (ticks s)\<rparr>) (full_url u)
        (now env (ticks s) - now env 0),
      Get (full_url u)]
     @ (if isError (analyzeN8NResponse d) then [error_event s d] else [])
     @ [update_event (responded s d) (analyzeN8NResponse d) st
          (now env (Suc (Suc (ticks s))) - now env (Suc (ticks s)))
          (now env (Suc (Suc (Suc (ticks s)))) - now env 0),
        if truthy (getp ''finished'' d)
        then workflow_completed_event (responded s d) (now env (Suc (Suc (Suc (Suc (ticks s))))) - now env 0)
        else Sleep (getPollingInterval (Suc (pollCount s)) (isError (analyzeN8NResponse d)))]"
proof -
  from assms(1) obtain u where u: "getp ''executionUrl'' (data s) = Some (JStr u)"
    and c: "consecutiveErrors s < maxConsecutiveErrors"
    and f: "fetch env (Suc (pollCount s)) = Response st d"
    by (auto simp: fetched_Some_iff)
  show ?thesis
    using assms(2) u
    by (simp add: acts_def iteration_request [OF c u] f process_response_def Let_def error_event_def
        responded_def)
qed

lemma error_event_simps [simp]:
  "event_named n (error_event s d) \<longleftrightarrow>
     (if workflowFailed s then n = ''error_persisting'' else n = ''n8n_error_detected'')"
  "\<not> is_get (error_event s d)"
  by (simp_all add: error_event_def)

lemma analyze_null [simp]: "\<not> isError (analyzeN8NResponse JNull)"
  by (simp add: analyzeN8NResponse_def no_error_def)

lemma nxt_response:
  assumes "fetched env s = Some (Response st d)" and "d \<noteq> JNull"
  shows "nxt env s = (if truthy (getp ''finished'' d)
                      then (responded s d)\<lparr>ticks := Suc (Suc (Suc (Suc (Suc (ticks s)))))\<rparr>
                      else responded s d)"
proof -
  from assms(1) obtain u where u: "getp ''executionUrl'' (data s) = Some (JStr u)"
    and c: "consecutiveErrors s < maxConsecutiveErrors"
    and f: "fetch env (Suc (pollCount s)) = Response st d"
    by (auto simp: fetched_Some_iff)
  show ?thesis
    using assms(2) u
    by (simp add: nxt_def iteration_request [OF c u] f process_response_def Let_def responded_def)
qed

lemma acts_failed:
  assumes "fetched env s = Some (Failed e)" and "data s \<noteq> JNull"
  shows "\<exists>u. getp ''executionUrl'' (data s) = Some (JStr u) \<and> acts env s =
       [step_event (s\<lparr>pollCount := Suc (pollCount s), ticks := Suc (ticks s)\<rparr>) (full_url u)
          (now env (ticks s) - now env 0),
        Get (full_url u), polling_error_event (nxt env s) e, Sleep 15000]"
proof -
  from assms(1) obtain u where u: "getp ''executionUrl'' (data s) = Some (JStr u)"
    and c: "consecutiveErrors s < maxConsecutiveErrors"
    and f: "fetch env (Suc (pollCount s)) = Failed e"
    by (auto simp: fetched_Some_iff)
  show ?thesis
    using assms(2) u
    by (simp add: acts_def nxt_def iteration_request [OF c u] f catch_block_simps)
qed

lemma acts_null:
  assumes "fetched env s = Some (Response st JNull)"
  shows "\<exists>u. getp ''executionUrl'' (data s) = Some (JStr u) \<and> acts env s =
       [step_event (s\<lparr>pollCount := Suc (pollCount s), ticks := Suc (ticks s)\<rparr>) (full_url u)
          (now env (ticks s) - now env 0),
        Get (full_url u)]"
proof -
  from assms(1) obtain u where u: "getp ''executionUrl'' (data s) = Some (JStr u)"
    and c: "consecutiveErrors s < maxConsecutiveErrors"
    and f: "fetch env (Suc (pollCount s)) = Response st JNull"
    by (auto simp: fetched_Some_iff)
  show ?thesis
    using u by (simp add: acts_def iteration_request [OF c u] f process_response_null)
qed

lemma no_completed_event:
  assumes "data s \<noteq> JNull" and "\<not> truthy (getp ''finished'' (data (nxt env s)))"
  shows "\<forall>a \<in> set (acts env s). \<not> event_named ''workflow_completed'' a"
proof (cases "fetched env s")
  case None
  show ?thesis
  proof (cases "maxConsecutiveErrors \<le> consecutiveErrors s")
    case True
    then show ?thesis by (simp add: nxt_guard(3))
  next
    case False
    then show ?thesis using None assms(1) cycle_no_request(3) [of env s] by simp
  qed
next
  case (Some r)
  show ?thesis
  proof (cases r)
    case (Failed e)
    then show ?thesis using Some assms(1) acts_failed [of env s e] by auto
  next
    case (Response st d)
    show ?thesis
    proof (cases "d = JNull")
      case True
      then show ?thesis using Some Response acts_null [of env s st] by auto
    next
      case False
      then have "\<not> truthy (getp ''finished'' d)"
        using Some Response assms(2) cycle_response(1) [of env s st d] by simp
      then show ?thesis
        using Some Response False acts_response [of env s st d]
        by (auto split: if_splits)
    qed
  qed
qed

lemma no_too_many_errors_event:
  assumes "data s \<noteq> JNull" and "consecutiveErrors s < maxConsecutiveErrors"
  shows "\<forall>a \<in> set (acts env s). \<not> event_named ''too_many_errors'' a"
proof (cases "fetched env s")
  case None
  then show ?thesis using assms cycle_no_request(3) [of env s] by simp
next
  case (Some r)
  show ?thesis
  proof (cases r)
    case (Failed e)
    then show ?thesis using Some assms(1) acts_failed [of env s e] by auto
  next
    case (Response st d)
    show ?thesis
    proof (cases "d = JNull")
      case True
      then show ?thesis using Some Response acts_null [of env s st] by auto
    next
      case False
      then show ?thesis
        using Some Response acts_response [of env s st d]
        by (auto split: if_splits)
    qed
  qed
qed

lemma error_events_of_cycle:
  assumes "data s \<noteq> JNull"
  shows "filter is_error_event (acts env s)
           = (if err_cycle env s then [error_event s (body env s)] else [])"
proof (cases "fetched env s")
  case None
  show ?thesis
  proof (cases "maxConsecutiveErrors \<le> consecutiveErrors s")
    case True
    then show ?thesis using None by (simp add: nxt_guard(3) err_cycle_def is_error_event_def)
  next
    case False
    then show ?thesis
      using None assms cycle_no_request(3) [of env s] by (simp add: err_cycle_def is_error_event_def)
  qed
next
  case (Some r)
  show ?thesis
  proof (cases r)
    case (Failed e)
    then show ?thesis
      using Some assms acts_failed [of env s e] by (auto simp: err_cycle_def is_error_event_def)
  next
    case (Response st d)
    show ?thesis
    proof (cases "d = JNull")
      case True
      then show ?thesis
        using Some Response acts_null [of env s st] by (auto simp: err_cycle_def is_error_event_def)
    next
      case False
      then show ?thesis
        using Some Response acts_response [of env s st d]
        by (auto simp: err_cycle_def body_def is_error_event_def split: if_splits)
    qed
  qed
qed

lemma requests_of_cycle:
  assumes "data s \<noteq> JNull"
  shows "length (filter is_get (acts env s)) = (case fetched env s of None \<Rightarrow> 0 | Some r \<Rightarrow> 1)"
proof (cases "fetched env s")
  case None
  show ?thesis
  proof (cases "maxConsecutiveErrors \<le> consecutiveErrors s")
    case True
    then show ?thesis using None by (simp add: nxt_guard(3))
  next
    case False
    then show ?thesis using None assms cycle_no_request(3) [of env s] by simp
  qed
next
  case (Some r)
  show ?thesis
  proof (cases r)
    case (Failed e)
    then show ?thesis using Some assms acts_failed [of env s e] by auto
  next
    case (Response st d)
    show ?thesis
    proof (cases "d = JNull")
      case True
      then show ?thesis using Some Response acts_null [of env s st] by auto
    next
      case False
      then show ?thesis using Some Response acts_response [of env s st d] by auto
    qed
  qed
qed

lemma nxt_flag:
  "workflowFailed (nxt env s) = (workflowFailed s \<or> err_cycle env s)"
proof (cases "fetched env s")
  case None
  then consider "maxConsecutiveErrors \<le> consecutiveErrors s"
    | "consecutiveErrors s < maxConsecutiveErrors" "\<forall>u. getp ''executionUrl'' (data s) \<noteq> Some (JStr u)"
    by (cases "maxConsecutiveErrors \<le> consecutiveErrors s") (auto simp: fetched_None_iff)
  then show ?thesis
  proof cases
    case 1
    then show ?thesis using None by (simp add: nxt_guard(1) err_cycle_def)
  next
    case 2
    then have "nxt env s = fst (snd (catch_block (s\<lparr>pollCount := Suc (pollCount s), ticks := Suc (ticks s)\<rparr>) split_type_error))"
      by (auto simp: nxt_def iteration_def Let_def split: option.split json.split)
    then show ?thesis using None by (simp add: catch_block_simps err_cycle_def)
  qed
next
  case (Some r)
  then obtain u where u: "getp ''executionUrl'' (data s) = Some (JStr u)"
    and c: "consecutiveErrors s < maxConsecutiveErrors"
    and f: "fetch env (Suc (pollCount s)) = r"
    by (auto simp: fetched_Some_iff)
  show ?thesis
  proof (cases r)
    case (Failed e)
    then show ?thesis
      using Some f by (simp add: nxt_def iteration_request [OF c u] catch_block_simps err_cycle_def)
  next
    case (Response st d)
    show ?thesis
    proof (cases "d = JNull")
      case True
      then show ?thesis
        using Some f Response
        by (simp add: nxt_def iteration_request [OF c u] process_response_null err_cycle_def)
    next
      case False
      then show ?thesis
        using Some Response cycle_response(3) [of env s st d] by (simp add: err_cycle_def)
    qed
  qed
qed

lemma nxt_failed_counter:
  assumes "fetched env s = Some (Failed e)"
  shows "consecutiveErrors (nxt env s) = Suc (consecutiveErrors s)"
proof -
  from assms obtain u where u: "getp ''executionUrl'' (data s) = Some (JStr u)"
    and c: "consecutiveErrors s < maxConsecutiveErrors"
    and f: "fetch env (Suc (pollCount s)) = Failed e"
    by (auto simp: fetched_Some_iff)
  show ?thesis
    by (simp add: nxt_def iteration_request [OF c u] f catch_block_simps)
qed

lemma polling_ended_simps:
  "\<exists>q. polling_ended_event s t = Emit ''polling_ended'' q
     \<and> map_of q ''reason'' = Some (PStr (fst (endReason s)))
     \<and> map_of q ''finalStatus'' = Some (PStr (snd (endReason s)))
     \<and> map_of q ''workflowFailed'' = Some (PBool (workflowFailed s))
     \<and> map_of q ''success'' = Some (PBool (getp ''finished'' (data s) = Some (JBool True)))
     \<and> map_of q ''totalPolls'' = Some (PNum (int (pollCount s)))
     \<and> map_of q ''totalTime'' = Some (PStr (secs t))"
  by (simp add: polling_ended_event_def)

lemma meta_simps:
  "map_of (meta s t) ''reason'' = Some (PStr (fst (endReason s)))"
  "map_of (meta s t) ''failed'' = Some (PBool (workflowFailed s))"
  "map_of (meta s t) ''success'' = Some (PBool (getp ''finished'' (data s) = Some (JBool True)))"
  "map_of (meta s t) ''totalPolls'' = Some (PNum (int (pollCount s)))"
  "map_of (meta s t) ''totalTime'' = Some (PNum (round_div t 1000))"
  by (simp_all add: meta_def)

subsection \<open>The cycles of a run\<close>

text \<open>The list of cycles against the loop: trace, final state and result; the link from one cycle to the next.\<close>

lemma loop_unfold:
  "loop env s =
     (if data s = JNull then ([], s, Some null_url_error)
      else if loop_cond s then
        (case ctl_of env s of
           Next \<Rightarrow> (acts env s @ fst (loop env (nxt env s)), snd (loop env (nxt env s)))
         | Break \<Rightarrow> (acts env s, nxt env s, None)
         | Throw e \<Rightarrow> (acts env s, nxt env s, Some e))
      else ([], s, None))"
  by (subst loop.simps) (simp add: iteration_eq split: ctl.split prod.split)

lemma cycles_inv: "c \<in> set (cycles env s) \<Longrightarrow> data c \<noteq> JNull \<and> loop_cond c"
proof (induction env s rule: cycles.induct)
  case (1 env s)
  then show ?case
    by (subst (asm) (2) cycles.simps) (auto split: if_splits)
qed

lemma cycles_Nil_iff: "cycles env s = [] \<longleftrightarrow> data s = JNull \<or> \<not> loop_cond s"
  by (subst cycles.simps) auto

lemma loop_trace: "fst (loop env s) = concat (map (acts env) (cycles env s))"
proof (induction env s rule: cycles.induct)
  case (1 env s)
  show ?case
  proof (cases "data s \<noteq> JNull \<and> loop_cond s")
    case False
    then show ?thesis
      by (subst loop_unfold, subst cycles.simps) auto
  next
    case True
    show ?thesis
    proof (cases "ctl_of env s = Next")
      case n: True
      with True 1 have "fst (loop env (nxt env s)) = concat (map (acts env) (cycles env (nxt env s)))"
        by simp
      with True n show ?thesis
        by (subst loop_unfold, subst cycles.simps) simp
    next
      case False
      with True show ?thesis
        by (subst loop_unfold, subst cycles.simps) (simp split: ctl.split)
    qed
  qed
qed

lemma loop_final:
  "fst (snd (loop env s)) = (if cycles env s = [] then s else nxt env (last (cycles env s)))"
proof (induction env s rule: cycles.induct)
  case (1 env s)
  show ?case
  proof (cases "data s \<noteq> JNull \<and> loop_cond s")
    case False
    then show ?thesis
      by (subst loop_unfold, subst cycles.simps, subst cycles.simps) auto
  next
    case True
    show ?thesis
    proof (cases "ctl_of env s = Next")
      case n: True
      with True 1 have ih: "fst (snd (loop env (nxt env s)))
          = (if cycles env (nxt env s) = [] then nxt env s else nxt env (last (cycles env (nxt env s))))"
        by simp
      have c: "cycles env s = s # cycles env (nxt env s)"
        using True n by (subst cycles.simps) simp
      show ?thesis
        using True n ih by (subst loop_unfold) (simp add: c)
    next
      case False
      have c: "cycles env s = [s]"
        using True False by (subst cycles.simps) simp
      show ?thesis
        using True False by (subst loop_unfold) (simp add: c split: ctl.split)
    qed
  qed
qed

lemma loop_result:
  "data s \<noteq> JNull \<Longrightarrow> snd (snd (loop env s)) =
     (if cycles env s = [] then None
      else (case ctl_of env (last (cycles env s)) of Throw e \<Rightarrow> Some e | _ \<Rightarrow> None))"
proof (induction env s rule: cycles.induct)
  case (1 env s)
  show ?case
  proof (cases "loop_cond s")
    case False
    then show ?thesis
      using 1(2) by (subst loop_unfold, subst cycles.simps) auto
  next
    case True
    show ?thesis
    proof (cases "ctl_of env s = Next")
      case n: True
      have nn: "data (nxt env s) \<noteq> JNull"
        using next_not_null [OF 1(2) n] .
      have c: "cycles env s = s # cycles env (nxt env s)"
        using True n 1(2) by (subst cycles.simps) simp
      have ih: "snd (snd (loop env (nxt env s))) =
         (if cycles env (nxt env s) = [] then None
          else (case ctl_of env (last (cycles env (nxt env s))) of Throw e \<Rightarrow> Some e | _ \<Rightarrow> None))"
        using 1(1) 1(2) True n nn by simp
      show ?thesis
        using True n 1(2) ih by (subst loop_unfold) (simp add: c)
    next
      case False
      have c: "cycles env s = [s]"
        using True False 1(2) by (subst cycles.simps) simp
      show ?thesis
        using True False 1(2) by (subst loop_unfold) (simp add: c split: ctl.split)
    qed
  qed
qed

lemma cycles_drop:
  "k < length (cycles env s) \<Longrightarrow> drop k (cycles env s) = cycles env (cycles env s ! k)"
proof (induction k arbitrary: s)
  case 0
  then have "cycles env s \<noteq> []" by auto
  then have "cycles env s ! 0 = s"
    by (subst cycles.simps, subst (asm) cycles.simps) (auto split: if_splits)
  then show ?case by simp
next
  case (Suc k)
  then have ne: "cycles env s \<noteq> []" by auto
  then have c: "cycles env s = s # (if ctl_of env s = Next then cycles env (nxt env s) else [])"
    by (subst cycles.simps, subst (asm) cycles.simps) (auto split: if_splits)
  with Suc.prems have n: "ctl_of env s = Next" and len: "k < length (cycles env (nxt env s))"
    by (auto split: if_splits)
  then have cs: "cycles env s = s # cycles env (nxt env s)"
    using c by simp
  show ?case
    using Suc.IH [OF len] by (simp add: cs)
qed

lemma cycles_step:
  assumes "k < length (cycles env s)"
  shows "cycles env (cycles env s ! k) =
     cycles env s ! k # (if ctl_of env (cycles env s ! k) = Next
                         then cycles env (nxt env (cycles env s ! k)) else [])"
proof -
  have "cycles env s ! k \<in> set (cycles env s)" using assms by simp
  then have "data (cycles env s ! k) \<noteq> JNull \<and> loop_cond (cycles env s ! k)"
    by (rule cycles_inv)
  then show ?thesis by (subst cycles.simps) simp
qed

lemma cycles_Suc:
  assumes "Suc k < length (cycles env s)"
  shows "cycles env s ! Suc k = nxt env (cycles env s ! k)"
    and "ctl_of env (cycles env s ! k) = Next"
proof -
  let ?cs = "cycles env s"
  have k: "k < length ?cs" using assms by simp
  have d: "drop k ?cs = ?cs ! k # (if ctl_of env (?cs ! k) = Next then cycles env (nxt env (?cs ! k)) else [])"
    using cycles_drop [OF k] cycles_step [OF k] by simp
  have d2: "drop k ?cs = ?cs ! k # drop (Suc k) ?cs"
    using k by (simp add: Cons_nth_drop_Suc)
  have ne: "drop (Suc k) ?cs \<noteq> []" using assms by simp
  from d d2 ne show n: "ctl_of env (?cs ! k) = Next" by (auto split: if_splits)
  with d d2 have "drop (Suc k) ?cs = cycles env (nxt env (?cs ! k))" by simp
  moreover have "drop (Suc k) ?cs = cycles env (?cs ! Suc k)"
    using cycles_drop [OF assms] .
  ultimately have e: "cycles env (nxt env (?cs ! k)) = cycles env (?cs ! Suc k)" by simp
  have "cycles env (?cs ! Suc k) \<noteq> []"
    using cycles_step [OF assms] by simp
  then have h1: "hd (cycles env (?cs ! Suc k)) = ?cs ! Suc k"
    using cycles_step [OF assms] by simp
  have "cycles env (nxt env (?cs ! k)) \<noteq> []" using e \<open>cycles env (?cs ! Suc k) \<noteq> []\<close> by simp
  then have "hd (cycles env (nxt env (?cs ! k))) = nxt env (?cs ! k)"
    by (subst cycles.simps, subst (asm) cycles.simps) (auto split: if_splits)
  with e h1 show "?cs ! Suc k = nxt env (?cs ! k)" by simp
qed

lemma cycles_last:
  assumes "k < length (cycles env s)"
    and "ctl_of env (cycles env s ! k) \<noteq> Next \<or> data (nxt env (cycles env s ! k)) = JNull
         \<or> \<not> loop_cond (nxt env (cycles env s ! k))"
  shows "Suc k = length (cycles env s)"
proof -
  let ?cs = "cycles env s"
  have "cycles env (?cs ! k) = [?cs ! k]"
    using cycles_step [OF assms(1)] assms(2) by (auto simp: cycles_Nil_iff)
  then have "drop k ?cs = [?cs ! k]" using cycles_drop [OF assms(1)] by simp
  then have "length (drop k ?cs) = 1" by simp
  then show ?thesis using assms(1) by simp
qed

lemma cycles_more:
  assumes "k < length (cycles env s)"
    and "ctl_of env (cycles env s ! k) = Next" and "data (nxt env (cycles env s ! k)) \<noteq> JNull"
    and "loop_cond (nxt env (cycles env s ! k))"
  shows "Suc k < length (cycles env s)"
proof -
  let ?cs = "cycles env s"
  have "cycles env (nxt env (?cs ! k)) \<noteq> []"
    using assms(3,4) by (simp add: cycles_Nil_iff)
  then have "length (cycles env (?cs ! k)) \<ge> 2"
    using cycles_step [OF assms(1)] assms(2) by (cases "cycles env (nxt env (?cs ! k))") auto
  then have "length (drop k ?cs) \<ge> 2" using cycles_drop [OF assms(1)] by simp
  then show ?thesis by simp
qed

lemma butlast_cycles:
  assumes "x \<in> set (butlast (cycles env s))"
  shows "ctl_of env x = Next" and "nxt env x \<in> set (cycles env s)" and "x \<in> set (cycles env s)"
proof -
  let ?cs = "cycles env s"
  from assms obtain k where k: "k < length (butlast ?cs)" and x: "x = butlast ?cs ! k"
    by (auto simp: in_set_conv_nth)
  then have sk: "Suc k < length ?cs" by simp
  have xk: "x = ?cs ! k" using k x by (simp add: nth_butlast)
  show "ctl_of env x = Next" using cycles_Suc(2) [OF sk] xk by simp
  have "?cs ! Suc k = nxt env x" using cycles_Suc(1) [OF sk] xk by simp
  then show "nxt env x \<in> set ?cs" using sk by (metis nth_mem)
  show "x \<in> set ?cs" using assms by (rule in_set_butlastD)
qed

lemma cycles_response_step:
  assumes "fetched env s = Some (Response st d)" and "d \<noteq> JNull" and "loop_cond s"
  shows "cycles env s = s # cycles env (nxt env s)"
    and "nxt env s = (if truthy (getp ''finished'' d)
                      then (responded s d)\<lparr>ticks := Suc (Suc (Suc (Suc (Suc (ticks s)))))\<rparr>
                      else responded s d)"
proof -
  have "data s \<noteq> JNull" using assms(1) by (auto simp: fetched_Some_iff)
  then show "cycles env s = s # cycles env (nxt env s)"
    using assms(3) cycle_response(4) [OF assms(1,2)] by (subst cycles.simps) simp
  show "nxt env s = (if truthy (getp ''finished'' d)
                      then (responded s d)\<lparr>ticks := Suc (Suc (Suc (Suc (Suc (ticks s)))))\<rparr>
                      else responded s d)"
    using assms(1,2) by (rule nxt_response)
qed

lemma cycles_failed_step:
  assumes "fetched env s = Some (Failed e)" and "loop_cond s"
  shows "cycles env s = s # cycles env (nxt env s)"
    and "nxt env s = s\<lparr>pollCount := Suc (pollCount s), ticks := Suc (Suc (ticks s)),
                        consecutiveErrors := Suc (consecutiveErrors s)\<rparr>"
proof -
  have d: "data s \<noteq> JNull" using assms(1) by (auto simp: fetched_Some_iff)
  then show "cycles env s = s # cycles env (nxt env s)"
    using assms(2) cycle_failed(2) [OF assms(1) d] by (subst cycles.simps) simp
  show "nxt env s = s\<lparr>pollCount := Suc (pollCount s), ticks := Suc (Suc (ticks s)),
                        consecutiveErrors := Suc (consecutiveErrors s)\<rparr>"
    using assms(1) d by (rule cycle_failed(1))
qed

lemma cycles_null_step:
  assumes "fetched env s = Some (Response st JNull)" and "loop_cond s"
  shows "cycles env s = [s]"
proof -
  have d: "data s \<noteq> JNull" using assms(1) by (auto simp: fetched_Some_iff)
  then show ?thesis
    using assms(2) cycle_null(3) [OF assms(1)] by (subst cycles.simps) simp
qed

lemma flag_kept_in_run:
  assumes "i \<le> j" and "j < length (cycles env s)" and "workflowFailed (cycles env s ! i)"
  shows "workflowFailed (cycles env s ! j)"
  using assms
proof (induction j)
  case 0
  then show ?case by simp
next
  case (Suc j)
  show ?case
  proof (cases "i = Suc j")
    case True
    then show ?thesis using Suc.prems by simp
  next
    case False
    then have "workflowFailed (cycles env s ! j)" using Suc by simp
    then show ?thesis
      using cycles_Suc(1) [OF Suc.prems(2)] by (simp add: nxt_flag)
  qed
qed

lemma failures_add_up:
  assumes "i \<le> j" and "j < length (cycles env s)"
    and "\<forall>k. i \<le> k \<and> k < j \<longrightarrow> (\<exists>e. fetched env (cycles env s ! k) = Some (Failed e))"
  shows "consecutiveErrors (cycles env s ! j) = consecutiveErrors (cycles env s ! i) + (j - i)"
  using assms
proof (induction j)
  case 0
  then show ?case by simp
next
  case (Suc j)
  show ?case
  proof (cases "i = Suc j")
    case True
    then show ?thesis by simp
  next
    case False
    then have ij: "i \<le> j" using Suc.prems(1) by simp
    have "consecutiveErrors (cycles env s ! j) = consecutiveErrors (cycles env s ! i) + (j - i)"
      using Suc.IH ij Suc.prems by simp
    moreover obtain e where "fetched env (cycles env s ! j) = Some (Failed e)"
      using Suc.prems(3) ij by auto
    ultimately show ?thesis
      using cycles_Suc(1) [OF Suc.prems(2)] ij by (simp add: nxt_failed_counter)
  qed
qed

subsection \<open>The whole run\<close>

text \<open>How a run ends, and what the cycles before the last one cannot have emitted.\<close>

lemma after_event_split:
  assumes "\<forall>a \<in> set pre. \<not> event_named n a" and "event_named n e"
  shows "after_event n (pre @ e # post) = post"
  using assms by (simp add: after_event_def dropWhile_append)

lemma initial_not_null [simp]: "data (initial url) \<noteq> JNull"
  by (simp add: initial_def)

lemma pollWorkflow_unfold:
  "pollWorkflow env url =
     (case snd (snd (loop env (initial url))) of
        Some e \<Rightarrow> (concat (map (acts env) (cycles env (initial url))), Thrown e)
      | None \<Rightarrow>
          (concat (map (acts env) (cycles env (initial url)))
             @ [polling_ended_event (fst (snd (loop env (initial url))))
                  (now env (ticks (fst (snd (loop env (initial url))))) - now env 0)],
           Returned (data (fst (snd (loop env (initial url)))))
             (meta (fst (snd (loop env (initial url))))
                (now env (ticks (fst (snd (loop env (initial url))))) - now env 0))))"
  by (simp add: pollWorkflow_def loop_trace [symmetric] Let_def split: prod.split option.split)

lemma ended_last_cycle:
  assumes "c \<in> set (cycles env (initial url))" and "ctl_of env c = Next"
    and "\<not> loop_cond (nxt env c)"
  shows "last (cycles env (initial url)) = c"
    and "butlast (cycles env (initial url)) @ [c] = cycles env (initial url)"
    and "pollWorkflow env url =
      (concat (map (acts env) (butlast (cycles env (initial url)))) @ acts env c
         @ [polling_ended_event (nxt env c) (now env (ticks (nxt env c)) - now env 0)],
       Returned (data (nxt env c)) (meta (nxt env c) (now env (ticks (nxt env c)) - now env 0)))"
proof -
  let ?cs = "cycles env (initial url)"
  from assms(1) obtain k where k: "k < length ?cs" and c: "c = ?cs ! k"
    by (auto simp: in_set_conv_nth)
  have "Suc k = length ?cs"
    using cycles_last [OF k] assms(3) c by simp
  then have l: "last ?cs = c"
    using c k by (metis diff_Suc_1 last_conv_nth length_0_conv nat.distinct(1))
  then show "last ?cs = c" .
  have ne: "?cs \<noteq> []" using k by auto
  then show b: "butlast ?cs @ [c] = ?cs" using l by (metis append_butlast_last_id)
  have f: "fst (snd (loop env (initial url))) = nxt env c"
    using ne l by (simp add: loop_final)
  have r: "snd (snd (loop env (initial url))) = None"
    using ne l assms(2) by (simp add: loop_result)
  have "concat (map (acts env) ?cs) = concat (map (acts env) (butlast ?cs)) @ acts env c"
    by (subst b [symmetric]) simp
  then show "pollWorkflow env url =
      (concat (map (acts env) (butlast ?cs)) @ acts env c
         @ [polling_ended_event (nxt env c) (now env (ticks (nxt env c)) - now env 0)],
       Returned (data (nxt env c)) (meta (nxt env c) (now env (ticks (nxt env c)) - now env 0)))"
    by (simp add: pollWorkflow_unfold f r)
qed

lemma ended_by_break:
  assumes "c \<in> set (cycles env (initial url))" and "ctl_of env c = Break"
  shows "last (cycles env (initial url)) = c"
    and "pollWorkflow env url =
      (concat (map (acts env) (butlast (cycles env (initial url)))) @ acts env c
         @ [polling_ended_event (nxt env c) (now env (ticks (nxt env c)) - now env 0)],
       Returned (data (nxt env c)) (meta (nxt env c) (now env (ticks (nxt env c)) - now env 0)))"
proof -
  let ?cs = "cycles env (initial url)"
  from assms(1) obtain k where k: "k < length ?cs" and c: "c = ?cs ! k"
    by (auto simp: in_set_conv_nth)
  have "Suc k = length ?cs"
    using cycles_last [OF k] assms(2) c by simp
  then have l: "last ?cs = c"
    using c k by (metis diff_Suc_1 last_conv_nth length_0_conv nat.distinct(1))
  then show "last ?cs = c" .
  have ne: "?cs \<noteq> []" using k by auto
  then have b: "butlast ?cs @ [c] = ?cs" using l by (metis append_butlast_last_id)
  have f: "fst (snd (loop env (initial url))) = nxt env c"
    using ne l by (simp add: loop_final)
  have r: "snd (snd (loop env (initial url))) = None"
    using ne l assms(2) by (simp add: loop_result)
  have "concat (map (acts env) ?cs) = concat (map (acts env) (butlast ?cs)) @ acts env c"
    by (subst b [symmetric]) simp
  then show "pollWorkflow env url =
      (concat (map (acts env) (butlast ?cs)) @ acts env c
         @ [polling_ended_event (nxt env c) (now env (ticks (nxt env c)) - now env 0)],
       Returned (data (nxt env c)) (meta (nxt env c) (now env (ticks (nxt env c)) - now env 0)))"
    by (simp add: pollWorkflow_unfold f r)
qed

lemma ended_by_throw:
  assumes "c \<in> set (cycles env (initial url))" and "ctl_of env c = Throw e"
  shows "pollWorkflow env url = (concat (map (acts env) (cycles env (initial url))), Thrown e)"
    and "last (cycles env (initial url)) = c"
proof -
  let ?cs = "cycles env (initial url)"
  from assms(1) obtain k where k: "k < length ?cs" and c: "c = ?cs ! k"
    by (auto simp: in_set_conv_nth)
  have "Suc k = length ?cs"
    using cycles_last [OF k] assms(2) c by simp
  then have l: "last ?cs = c"
    using c k by (metis diff_Suc_1 last_conv_nth length_0_conv nat.distinct(1))
  then show "last ?cs = c" .
  have ne: "?cs \<noteq> []" using k by auto
  have r: "snd (snd (loop env (initial url))) = Some e"
    using ne l assms(2) by (simp add: loop_result)
  show "pollWorkflow env url = (concat (map (acts env) ?cs), Thrown e)"
    by (simp add: pollWorkflow_unfold r)
qed

lemma earlier_cycles_clean:
  assumes "x \<in> set (butlast (cycles env s))"
  shows "\<forall>a \<in> set (acts env x). \<not> event_named ''workflow_completed'' a"
    and "\<forall>a \<in> set (acts env x). \<not> event_named ''too_many_errors'' a"
proof -
  have n: "ctl_of env x = Next" and m: "nxt env x \<in> set (cycles env s)"
    and x: "x \<in> set (cycles env s)"
    using butlast_cycles [OF assms] by auto
  have dx: "data x \<noteq> JNull" using cycles_inv [OF x] by simp
  have "loop_cond (nxt env x)" using cycles_inv [OF m] by simp
  then have "\<not> truthy (getp ''finished'' (data (nxt env x)))" by (simp add: loop_cond_def)
  then show "\<forall>a \<in> set (acts env x). \<not> event_named ''workflow_completed'' a"
    using no_completed_event [OF dx] by simp
  have "consecutiveErrors x < maxConsecutiveErrors"
    using n nxt_guard(2) [of x env] by (cases "maxConsecutiveErrors \<le> consecutiveErrors x") auto
  then show "\<forall>a \<in> set (acts env x). \<not> event_named ''too_many_errors'' a"
    using no_too_many_errors_event [OF dx] by simp
qed

lemma flag_in_run:
  assumes "k < length (cycles env (initial url))"
  shows "workflowFailed (cycles env (initial url) ! k)
           = (\<exists>j<k. err_cycle env (cycles env (initial url) ! j))"
  using assms
proof (induction k)
  case 0
  then have "cycles env (initial url) \<noteq> []" by auto
  then have "cycles env (initial url) ! 0 = initial url"
    by (subst cycles.simps, subst (asm) cycles.simps) (auto split: if_splits)
  then show ?case by (simp add: initial_def)
next
  case (Suc k)
  then have "workflowFailed (cycles env (initial url) ! k)
           = (\<exists>j<k. err_cycle env (cycles env (initial url) ! j))" by simp
  then show ?case
    using cycles_Suc(1) [OF Suc.prems] by (auto simp: nxt_flag less_Suc_eq)
qed

lemma error_events_shape:
  assumes "\<forall>k < length xs. workflowFailed (xs ! k) = (b \<or> (\<exists>j<k. err_cycle env (xs ! j)))"
  shows "map (\<lambda>c. error_event c (body env c)) (filter (err_cycle env) xs)
           = (if b then map (later_error_event env) (filter (err_cycle env) xs)
              else (case filter (err_cycle env) xs of
                      [] \<Rightarrow> []
                    | c # cs \<Rightarrow> first_error_event env c # map (later_error_event env) cs))"
  using assms
proof (induction xs arbitrary: b)
  case Nil
  then show ?case by simp
next
  case (Cons x xs)
  have x: "workflowFailed x = b" using Cons.prems by auto
  have tl: "\<forall>k < length xs. workflowFailed (xs ! k) = ((b \<or> err_cycle env x) \<or> (\<exists>j<k. err_cycle env (xs ! j)))"
  proof (intro allI impI)
    fix k assume k: "k < length xs"
    then have "workflowFailed ((x # xs) ! Suc k) = (b \<or> (\<exists>j<Suc k. err_cycle env ((x # xs) ! j)))"
      using Cons.prems by (metis Suc_less_eq length_Cons)
    moreover have "(\<exists>j<Suc k. err_cycle env ((x # xs) ! j))
        \<longleftrightarrow> err_cycle env x \<or> (\<exists>j<k. err_cycle env (xs ! j))"
      by (auto simp: less_Suc_eq_0_disj)
    ultimately show "workflowFailed (xs ! k) = ((b \<or> err_cycle env x) \<or> (\<exists>j<k. err_cycle env (xs ! j)))"
      by auto
  qed
  note ih = Cons.IH [OF tl]
  show ?case
  proof (cases "err_cycle env x")
    case True
    then show ?thesis
      using ih x by (simp add: error_event_def first_error_event_def later_error_event_def)
  next
    case False
    then show ?thesis using ih by simp
  qed
qed

lemma filter_concat_map:
  "filter P (concat (map f xs)) = concat (map (\<lambda>x. filter P (f x)) xs)"
  by (induction xs) auto

lemma error_events_of_run:
  "filter is_error_event (concat (map (acts env) (cycles env s)))
     = map (\<lambda>c. error_event c (body env c)) (filter (err_cycle env) (cycles env s))"
proof -
  have "\<forall>c \<in> set xs. data c \<noteq> JNull \<Longrightarrow>
        concat (map (\<lambda>x. filter is_error_event (acts env x)) xs)
          = map (\<lambda>c. error_event c (body env c)) (filter (err_cycle env) xs)" for xs
    by (induction xs) (auto simp: error_events_of_cycle)
  then show ?thesis
    using cycles_inv [of _ env s] by (simp add: filter_concat_map)
qed

lemma final_pollCount: "pollCount (fst (snd (loop env (initial url)))) \<le> maxPolls"
proof (cases "cycles env (initial url) = []")
  case True
  then show ?thesis by (simp add: loop_final initial_def)
next
  case False
  then have "last (cycles env (initial url)) \<in> set (cycles env (initial url))" by simp
  then have "loop_cond (last (cycles env (initial url)))" using cycles_inv by blast
  then have "pollCount (last (cycles env (initial url))) < maxPolls" by (simp add: loop_cond_def)
  then show ?thesis
    using False iteration_pollCount [of env "last (cycles env (initial url))"]
    by (simp add: loop_final nxt_def)
qed

lemma error_events_by_cycle:
  "filter is_error_event (fst (pollWorkflow env url))
     = (case filter (err_cycle env) (cycles env (initial url)) of
          [] \<Rightarrow> []
        | c # cs \<Rightarrow> first_error_event env c # map (later_error_event env) cs)"
proof -
  let ?cs = "cycles env (initial url)"
  have "filter is_error_event (fst (pollWorkflow env url))
          = filter is_error_event (concat (map (acts env) ?cs))"
    by (simp add: pollWorkflow_unfold is_error_event_def split: option.split)
  also have "\<dots> = map (\<lambda>c. error_event c (body env c)) (filter (err_cycle env) ?cs)"
    by (rule error_events_of_run)
  also have "\<dots> = (case filter (err_cycle env) ?cs of
          [] \<Rightarrow> []
        | c # cs \<Rightarrow> first_error_event env c # map (later_error_event env) cs)"
    using error_events_shape [of ?cs False env] flag_in_run [of _ env url] by simp
  finally show ?thesis .
qed

lemma error_event_fields:
  "event_name (first_error_event env c) = ''n8n_error_detected''"
  "event_name (later_error_event env c) = ''error_persisting''"
  "payload_field ''pollCount'' (first_error_event env c) = Some (PNum (int (Suc (pollCount c))))"
  "payload_field ''pollCount'' (later_error_event env c) = Some (PNum (int (Suc (pollCount c))))"
  "payload_field ''data'' (first_error_event env c) = Some (PDoc (body env c))"
  "payload_field ''data'' (later_error_event env c) = Some (PDoc (body env c))"
  "payload_field ''willContinue'' (first_error_event env c) = Some (PBool True)"
  by (simp_all add: first_error_event_def later_error_event_def n8n_error_detected_event_def
      error_persisting_event_def)

lemma error_event_named:
  "event_named n (first_error_event env c) \<longleftrightarrow> n = ''n8n_error_detected''"
  "event_named n (later_error_event env c) \<longleftrightarrow> n = ''error_persisting''"
  by (simp_all add: first_error_event_def later_error_event_def)

lemma filter_named_error_events:
  "n = ''n8n_error_detected'' \<or> n = ''error_persisting'' \<Longrightarrow>
   filter (event_named n) tr = filter (event_named n) (filter is_error_event tr)"
  by (induction tr) (auto simp: is_error_event_def)

lemma later_event_names:
  "map event_name (map (later_error_event env) cs) = replicate (length cs) ''error_persisting''"
  by (induction cs) (simp_all add: error_event_fields)

lemma later_events_named:
  "filter (event_named ''n8n_error_detected'') (map (later_error_event env) cs) = []"
  "length (filter (event_named ''error_persisting'') (map (later_error_event env) cs)) = length cs"
  by (induction cs) (simp_all add: error_event_named)

subsection \<open>The concrete runs\<close>

text \<open>The cycles of the runs defined above.\<close>

lemma failing_doc_error: "isError (analyzeN8NResponse failing_doc)"
  by code_simp

lemma running_doc_fine: "\<not> isError (analyzeN8NResponse running_doc)"
  by code_simp

lemma finished_doc_fine: "\<not> isError (analyzeN8NResponse finished_doc)"
  by code_simp

lemma running_doc_props:
  "running_doc \<noteq> JNull"
  "getp ''executionUrl'' running_doc = Some (JStr ''https://n8n.srv903010.hstgr.cloud/webhook/abc'')"
  "\<not> truthy (getp ''finished'' running_doc)"
  "truthy (getp ''executionUrl'' running_doc)"
  by (simp_all add: running_doc_def)

lemma three_polls_cycles:
  "cycles three_polls (initial start_url) = [initial start_url, after_first_error, after_second_error]"
proof -
  have f0: "fetched three_polls (initial start_url) = Some (Response 200 failing_doc)"
    by (simp add: fetched_def three_polls_def initial_def start_url_def maxConsecutiveErrors_def)
  have n0: "nxt three_polls (initial start_url) = after_first_error"
    using cycles_response_step(2) [OF f0] failing_doc_error
    by (simp add: failing_doc_def loop_cond_def initial_def start_url_def maxPolls_def responded_def
        after_first_error_def)
  have c0: "cycles three_polls (initial start_url) = initial start_url # cycles three_polls after_first_error"
    using cycles_response_step(1) [OF f0] n0
    by (simp add: failing_doc_def loop_cond_def initial_def start_url_def maxPolls_def)
  have f1: "fetched three_polls after_first_error = Some (Response 200 failing_doc)"
    by (simp add: fetched_def three_polls_def after_first_error_def failing_doc_def maxConsecutiveErrors_def)
  have n1: "nxt three_polls after_first_error = after_second_error"
    using cycles_response_step(2) [OF f1] failing_doc_error
    by (simp add: failing_doc_def loop_cond_def after_first_error_def maxPolls_def responded_def
        after_second_error_def)
  have c1: "cycles three_polls after_first_error = after_first_error # cycles three_polls after_second_error"
    using cycles_response_step(1) [OF f1] n1
    by (simp add: failing_doc_def loop_cond_def after_first_error_def maxPolls_def)
  have f2: "fetched three_polls after_second_error = Some (Response 200 finished_doc)"
    by (simp add: fetched_def three_polls_def after_second_error_def failing_doc_def maxConsecutiveErrors_def)
  have n2: "data (nxt three_polls after_second_error) = finished_doc"
    using cycle_response(1) [OF f2] by (simp add: finished_doc_def)
  have c2: "cycles three_polls after_second_error = after_second_error # cycles three_polls (nxt three_polls after_second_error)"
    using cycles_response_step(1) [OF f2]
    by (simp add: failing_doc_def finished_doc_def loop_cond_def after_second_error_def maxPolls_def)
  have c3: "cycles three_polls (nxt three_polls after_second_error) = []"
    using n2 by (simp add: cycles_Nil_iff loop_cond_def finished_doc_def)
  show ?thesis by (simp add: c0 c1 c2 c3)
qed

lemma two_polls_fetched: "fetched two_polls second_cycle = Some (Response 200 finished_doc)"
  by (simp add: fetched_def two_polls_def second_cycle_def running_doc_def maxConsecutiveErrors_def)

lemma two_polls_cycles: "cycles two_polls (initial start_url) = [initial start_url, second_cycle]"
proof -
  have f0: "fetched two_polls (initial start_url) = Some (Response 200 running_doc)"
    by (simp add: fetched_def two_polls_def initial_def start_url_def maxConsecutiveErrors_def)
  have n0: "nxt two_polls (initial start_url) = second_cycle"
    using cycles_response_step(2) [OF f0] running_doc_fine
    by (simp add: running_doc_def loop_cond_def initial_def start_url_def maxPolls_def responded_def
        second_cycle_def)
  have c0: "cycles two_polls (initial start_url) = initial start_url # cycles two_polls second_cycle"
    using cycles_response_step(1) [OF f0] n0
    by (simp add: running_doc_def loop_cond_def initial_def start_url_def maxPolls_def)
  have n1: "data (nxt two_polls second_cycle) = finished_doc"
    using cycle_response(1) [OF two_polls_fetched] by (simp add: finished_doc_def)
  have c1: "cycles two_polls second_cycle = second_cycle # cycles two_polls (nxt two_polls second_cycle)"
    using cycles_response_step(1) [OF two_polls_fetched]
    by (simp add: running_doc_def finished_doc_def loop_cond_def second_cycle_def maxPolls_def)
  have c2: "cycles two_polls (nxt two_polls second_cycle) = []"
    using n1 by (simp add: cycles_Nil_iff loop_cond_def finished_doc_def)
  show ?thesis by (simp add: c0 c1 c2)
qed

lemma initial_after_failures: "initial start_url = after_failures 0"
  by (simp add: initial_def after_failures_def)

lemma after_failures_simps [simp]:
  "data (after_failures k) = JObj [(''executionUrl'', start_url), (''finished'', JBool False)]"
  "pollCount (after_failures k) = k" "consecutiveErrors (after_failures k) = k"
  by (simp_all add: after_failures_def)

lemma flaky_fetched:
  "fetched flaky (after_failures 0) = Some (Failed reset_error)"
  "fetched flaky (after_failures 1) = Some (Failed reset_error)"
  "fetched flaky (after_failures 2) = Some (Response 200 running_doc)"
  "fetched flaky recovered = Some (Response 200 JNull)"
  by (simp_all add: fetched_def flaky_def after_failures_def recovered_def start_url_def
      running_doc_def maxConsecutiveErrors_def)

lemma flaky_cycles:
  "cycles flaky (initial start_url) = [after_failures 0, after_failures 1, after_failures 2, recovered]"
proof -
  have l: "loop_cond (after_failures 0)" "loop_cond (after_failures 1)" "loop_cond (after_failures 2)"
    "loop_cond recovered"
    by (simp_all add: loop_cond_def after_failures_def recovered_def start_url_def running_doc_def
        maxPolls_def)
  have n0: "nxt flaky (after_failures 0) = after_failures 1"
    using cycles_failed_step(2) [OF flaky_fetched(1) l(1)] by (simp add: after_failures_def)
  have n1: "nxt flaky (after_failures 1) = after_failures 2"
    using cycles_failed_step(2) [OF flaky_fetched(2) l(2)] by (simp add: after_failures_def)
  have n2: "nxt flaky (after_failures 2) = recovered"
    using cycles_response_step(2) [OF flaky_fetched(3) _ l(3)] running_doc_fine
    by (simp add: running_doc_def responded_def after_failures_def recovered_def)
  have d: "running_doc \<noteq> JNull" by (simp add: running_doc_def)
  have c3: "cycles flaky recovered = [recovered]"
    by (rule cycles_null_step [OF flaky_fetched(4) l(4)])
  have c2: "cycles flaky (after_failures 2) = [after_failures 2, recovered]"
    using cycles_response_step(1) [OF flaky_fetched(3) d l(3)] by (simp only: n2 c3)
  have c1: "cycles flaky (after_failures 1) = [after_failures 1, after_failures 2, recovered]"
    using cycles_failed_step(1) [OF flaky_fetched(2) l(2)] by (simp only: n1 c2)
  have c0: "cycles flaky (after_failures 0)
      = [after_failures 0, after_failures 1, after_failures 2, recovered]"
    using cycles_failed_step(1) [OF flaky_fetched(1) l(1)] by (simp only: n0 c1)
  then show ?thesis
    by (simp only: initial_after_failures)
qed

lemma initial_long_state: "initial start_url = long_state 0"
  by (simp add: initial_def long_state_def running_doc_def start_url_def)

lemma long_state_simps [simp]:
  "data (long_state k) = running_doc" "pollCount (long_state k) = k"
  "consecutiveErrors (long_state k) = k - 990" "workflowFailed (long_state k) = False"
  by (simp_all add: long_state_def)

lemma long_loop_cond: "loop_cond (long_state k) \<longleftrightarrow> k < 1000"
  by (simp add: loop_cond_def running_doc_props maxPolls_def)

lemma long_fetched:
  assumes "k < 1000"
  shows "fetched long_run (long_state k)
           = Some (if k < 990 then Response 200 running_doc else Failed reset_error)"
  using assms
  by (auto simp: fetched_def running_doc_props maxConsecutiveErrors_def long_run_def)

lemma long_nxt:
  assumes "k < 1000"
  shows "nxt long_run (long_state k) = long_state (Suc k)"
proof (cases "k < 990")
  case True
  then have f: "fetched long_run (long_state k) = Some (Response 200 running_doc)"
    using long_fetched [OF assms] by simp
  have l: "loop_cond (long_state k)" using assms by (simp add: long_loop_cond)
  show ?thesis
    using cycles_response_step(2) [OF f running_doc_props(1) l] True running_doc_fine
    by (simp add: running_doc_props responded_def long_state_def)
next
  case False
  then have f: "fetched long_run (long_state k) = Some (Failed reset_error)"
    using long_fetched [OF assms] by simp
  have l: "loop_cond (long_state k)" using assms by (simp add: long_loop_cond)
  show ?thesis
    using cycles_failed_step(2) [OF f l] False assms
    by (auto simp: long_state_def)
qed

lemma long_ctl:
  assumes "k < 1000"
  shows "ctl_of long_run (long_state k) = Next"
proof (cases "k < 990")
  case True
  then have f: "fetched long_run (long_state k) = Some (Response 200 running_doc)"
    using long_fetched [OF assms] by simp
  show ?thesis using cycle_response(4) [OF f running_doc_props(1)] .
next
  case False
  then have f: "fetched long_run (long_state k) = Some (Failed reset_error)"
    using long_fetched [OF assms] by simp
  show ?thesis using cycle_failed(2) [OF f] by (simp add: running_doc_props)
qed

lemma long_cycles_from:
  "k \<le> 1000 \<Longrightarrow> cycles long_run (long_state k) = map long_state [k..<1000]"
proof (induction k rule: inc_induct)
  case base
  then show ?case by (simp add: cycles_Nil_iff long_loop_cond)
next
  case (step n)
  have "cycles long_run (long_state n) = long_state n # cycles long_run (long_state (Suc n))"
    using step.hyps long_ctl [of n] long_nxt [of n]
    by (subst cycles.simps) (simp add: long_loop_cond running_doc_props)
  then show ?case
    using step by (simp add: upt_conv_Cons)
qed

lemma long_cycles: "cycles long_run (initial start_url) = map long_state [0..<1000]"
  using long_cycles_from [of 0] by (simp add: initial_long_state)

lemma long_result:
  "pollWorkflow long_run start_url =
     (concat (map (acts long_run) (butlast (cycles long_run (initial start_url))))
        @ acts long_run (long_state 999)
        @ [polling_ended_event (long_state 1000)
             (now long_run (ticks (long_state 1000)) - now long_run 0)],
      Returned running_doc
        (meta (long_state 1000) (now long_run (ticks (long_state 1000)) - now long_run 0)))"
proof -
  have m: "long_state 999 \<in> set (cycles long_run (initial start_url))"
    by (simp add: long_cycles)
  have n: "nxt long_run (long_state 999) = long_state 1000"
    using long_nxt [of 999] by simp
  have c: "ctl_of long_run (long_state 999) = Next"
    using long_ctl [of 999] by simp
  have l: "\<not> loop_cond (nxt long_run (long_state 999))"
    by (simp add: n long_loop_cond)
  show ?thesis
    using ended_last_cycle(3) [OF m c l] by (simp add: n)
qed

lemma long_reason: "endReason (long_state 1000) = (''max_polls_reached'', ''max_attempts'')"
  by (simp add: endReason_def running_doc_props maxPolls_def)

lemma long_no_guard:
  "filter (event_named ''too_many_errors'') (fst (pollWorkflow long_run start_url)) = []"
proof -
  have "\<forall>a \<in> set (acts long_run c). \<not> event_named ''too_many_errors'' a"
    if "c \<in> set (cycles long_run (initial start_url))" for c
  proof -
    from that obtain k where "k < 1000" "c = long_state k"
      by (auto simp: long_cycles)
    then show ?thesis
      using no_too_many_errors_event [of c long_run]
      by (simp add: running_doc_props maxConsecutiveErrors_def)
  qed
  then have "\<forall>a \<in> set (concat (map (acts long_run) (cycles long_run (initial start_url)))).
      \<not> event_named ''too_many_errors'' a"
    by auto
  then show ?thesis
    by (simp add: pollWorkflow_unfold filter_empty_conv split: option.split)
qed

lemma failing_loop_cond: "loop_cond (after_failures k) \<longleftrightarrow> k < 1000"
  by (simp add: loop_cond_def start_url_def maxPolls_def)

lemma failing_fetched:
  "k < 10 \<Longrightarrow> fetched always_failing (after_failures k) = Some (Failed reset_error)"
  by (simp add: fetched_def start_url_def maxConsecutiveErrors_def always_failing_def)

lemma failing_nxt:
  assumes "k < 10"
  shows "nxt always_failing (after_failures k) = after_failures (Suc k)"
    and "ctl_of always_failing (after_failures k) = Next"
proof -
  have l: "loop_cond (after_failures k)" using assms by (simp add: failing_loop_cond)
  show "nxt always_failing (after_failures k) = after_failures (Suc k)"
    using cycles_failed_step(2) [OF failing_fetched [OF assms] l] by (simp add: after_failures_def)
  show "ctl_of always_failing (after_failures k) = Next"
    using cycle_failed(2) [OF failing_fetched [OF assms]] by simp
qed

lemma failing_cycles_from:
  "k \<le> 10 \<Longrightarrow> cycles always_failing (after_failures k) = map after_failures [k..<11]"
proof (induction k rule: inc_induct)
  case base
  have "ctl_of always_failing (after_failures 10) = Break"
    using nxt_guard(2) [of "after_failures 10" always_failing] by (simp add: maxConsecutiveErrors_def)
  then show ?case
    by (subst cycles.simps) (simp add: failing_loop_cond)
next
  case (step n)
  have "cycles always_failing (after_failures n)
          = after_failures n # cycles always_failing (after_failures (Suc n))"
    using step.hyps failing_nxt [of n]
    by (subst cycles.simps) (simp add: failing_loop_cond)
  then show ?case
    using step by (simp add: upt_conv_Cons)
qed

lemma failing_cycles: "cycles always_failing (initial start_url) = map after_failures [0..<11]"
  using failing_cycles_from [of 0] by (simp add: initial_after_failures)

section \<open>The poll scheduler\<close>

text \<open>
  Claim C4. With \<open>hasError\<close> the interval is 15000 ms whatever the attempt count. Without it
  the interval is 3000 ms below 5 attempts, 5000 ms from 5 to 19, 10000 ms from 20 to 59,
  15000 ms from 60 to 119 and 20000 ms from 120 on, and it never decreases when the attempt
  count grows.
\<close>

theorem getPollingInterval_schedule:
  "getPollingInterval k True = 15000
   \<and> (a < 5 \<longrightarrow> getPollingInterval a False = 3000)
   \<and> (5 \<le> b \<and> b < 20 \<longrightarrow> getPollingInterval b False = 5000)
   \<and> (20 \<le> c \<and> c < 60 \<longrightarrow> getPollingInterval c False = 10000)
   \<and> (60 \<le> d \<and> d < 120 \<longrightarrow> getPollingInterval d False = 15000)
   \<and> (120 \<le> e \<longrightarrow> getPollingInterval e False = 20000)
   \<and> (m \<le> n \<longrightarrow> getPollingInterval m False \<le> getPollingInterval n False)"
  by (simp add: getPollingInterval_def)

theorem getPollingInterval_schedule_witness:
  "getPollingInterval 7 True = 15000
   \<and> getPollingInterval 4 False = 3000
   \<and> getPollingInterval 19 False = 5000
   \<and> getPollingInterval 20 False = 10000
   \<and> getPollingInterval 119 False = 15000
   \<and> getPollingInterval 120 False = 20000
   \<and> getPollingInterval 59 False \<le> getPollingInterval 60 False"
  using getPollingInterval_schedule [where k = 7 and a = 4 and b = 19 and c = 20 and d = 119
      and e = 120 and m = 59 and n = 60]
  by simp

section \<open>Completion\<close>

text \<open>
  Claim C1. In any run, when the request of a cycle resolves with a document whose
  \<open>finished\<close> is \<open>true\<close>, that cycle is the last one, so no request follows it; the
  trace holds exactly one \<open>workflow_completed\<close> event, followed by \<open>polling_ended\<close> alone;
  and the run returns that document with the reason \<open>completed\<close> when the sticky flag is
  unset after the document was classified, \<open>completed_with_errors\<close> when it is set.
\<close>

theorem finished_stops_polling:
  assumes "c \<in> set (cycles env (initial url))"
    and "fetched env c = Some (Response st d)"
    and "getp ''finished'' d = Some (JBool True)"
  shows "\<exists>tr m q. pollWorkflow env url = (tr, Returned d m)
           \<and> last (cycles env (initial url)) = c
           \<and> length (filter (event_named ''workflow_completed'') tr) = 1
           \<and> after_event ''workflow_completed'' tr = [Emit ''polling_ended'' q]
           \<and> filter is_get (after_event ''workflow_completed'' tr) = []
           \<and> map_of m ''success'' = Some (PBool True)
           \<and> map_of m ''failed'' = Some (PBool (workflowFailed c \<or> isError (analyzeN8NResponse d)))
           \<and> map_of m ''reason'' = Some (PStr
                (if workflowFailed c \<or> isError (analyzeN8NResponse d)
                 then ''completed_with_errors'' else ''completed''))
           \<and> map_of q ''reason'' = map_of m ''reason''"
proof -
  let ?cs = "cycles env (initial url)"
  let ?s = "nxt env c"
  let ?t = "now env (ticks ?s) - now env 0"
  have dn: "d \<noteq> JNull" using assms(3) by auto
  have fin: "truthy (getp ''finished'' d)" using assms(3) by simp
  have nx: "data ?s = d" "ctl_of env c = Next"
    "workflowFailed ?s = (workflowFailed c \<or> isError (analyzeN8NResponse d))"
    using cycle_response [OF assms(2) dn] by auto
  have nl: "\<not> loop_cond ?s" using nx(1) fin by (simp add: loop_cond_def)
  note e = ended_last_cycle [OF assms(1) nx(2) nl]
  obtain u where a: "acts env c =
     ([step_event (c\<lparr>pollCount := Suc (pollCount c), ticks := Suc (ticks c)\<rparr>) (full_url u)
        (now env (ticks c) - now env 0),
      Get (full_url u)]
     @ (if isError (analyzeN8NResponse d) then [error_event c d] else [])
     @ [update_event (responded c d) (analyzeN8NResponse d) st
          (now env (Suc (Suc (ticks c))) - now env (Suc (ticks c)))
          (now env (Suc (Suc (Suc (ticks c)))) - now env 0)])
     @ [workflow_completed_event (responded c d) (now env (Suc (Suc (Suc (Suc (ticks c))))) - now env 0)]"
    using acts_response [OF assms(2) dn] fin by auto
  define pre where "pre = concat (map (acts env) (butlast ?cs))
     @ [step_event (c\<lparr>pollCount := Suc (pollCount c), ticks := Suc (ticks c)\<rparr>) (full_url u)
        (now env (ticks c) - now env 0),
      Get (full_url u)]
     @ (if isError (analyzeN8NResponse d) then [error_event c d] else [])
     @ [update_event (responded c d) (analyzeN8NResponse d) st
          (now env (Suc (Suc (ticks c))) - now env (Suc (ticks c)))
          (now env (Suc (Suc (Suc (ticks c)))) - now env 0)]"
  define w where "w = workflow_completed_event (responded c d)
      (now env (Suc (Suc (Suc (Suc (ticks c))))) - now env 0)"
  define tr where "tr = pre @ w # [polling_ended_event ?s ?t]"
  define m where "m = meta ?s ?t"
  have clean: "\<forall>a \<in> set pre. \<not> event_named ''workflow_completed'' a"
    using earlier_cycles_clean(1) [of _ env "initial url"] by (auto simp: pre_def split: if_splits)
  have w: "event_named ''workflow_completed'' w" by (simp add: w_def)
  have p: "pollWorkflow env url = (tr, Returned d m)"
    using e(3) by (simp add: tr_def m_def pre_def w_def a nx(1))
  have one: "length (filter (event_named ''workflow_completed'') tr) = 1"
    using clean w by (simp add: tr_def)
  have aft: "after_event ''workflow_completed'' tr = [polling_ended_event ?s ?t]"
    unfolding tr_def using clean w by (rule after_event_split)
  have er: "fst (endReason ?s) = (if workflowFailed c \<or> isError (analyzeN8NResponse d)
                 then ''completed_with_errors'' else ''completed'')"
    using nx fin by (simp add: endReason_def)
  obtain q where q: "polling_ended_event ?s ?t = Emit ''polling_ended'' q"
    and qr: "map_of q ''reason'' = Some (PStr (fst (endReason ?s)))"
    by (simp add: polling_ended_event_def)
  show ?thesis
    using p e(1) one aft q qr er nx(1,3) assms(3) by (auto simp: m_def meta_simps)
qed

theorem finished_stops_polling_witness:
  "second_cycle \<in> set (cycles two_polls (initial start_url))
   \<and> fetched two_polls second_cycle = Some (Response 200 finished_doc)
   \<and> getp ''finished'' finished_doc = Some (JBool True)
   \<and> (\<exists>tr m q. pollWorkflow two_polls start_url = (tr, Returned finished_doc m)
           \<and> last (cycles two_polls (initial start_url)) = second_cycle
           \<and> length (filter (event_named ''workflow_completed'') tr) = 1
           \<and> after_event ''workflow_completed'' tr = [Emit ''polling_ended'' q]
           \<and> filter is_get (after_event ''workflow_completed'' tr) = []
           \<and> map_of m ''success'' = Some (PBool True)
           \<and> map_of m ''failed'' = Some (PBool False)
           \<and> map_of m ''reason'' = Some (PStr ''completed'')
           \<and> map_of q ''reason'' = map_of m ''reason'')"
proof -
  have h1: "second_cycle \<in> set (cycles two_polls (initial start_url))"
    by (simp add: two_polls_cycles)
  have h2: "fetched two_polls second_cycle = Some (Response 200 finished_doc)"
    by (rule two_polls_fetched)
  have h3: "getp ''finished'' finished_doc = Some (JBool True)"
    by (simp add: finished_doc_def)
  have e: "\<not> workflowFailed second_cycle" "\<not> isError (analyzeN8NResponse finished_doc)"
    using finished_doc_fine by (simp_all add: second_cycle_def)
  show ?thesis
    using finished_stops_polling [OF h1 h2 h3] h1 h2 h3 e by simp
qed

section \<open>The sticky flag\<close>

text \<open>
  Claim C2. Once a cycle of a run has classified its document as an error, or has started
  with \<open>workflowFailed\<close> set, the flag is set when that cycle ends, at the start and at
  the end of every later cycle, in the state in which the loop ends, and in the \<open>failed\<close>
  field of the returned \<open>_meta\<close> block.
\<close>

theorem workflowFailed_sticky:
  assumes "i < length (cycles env (initial url))"
    and "err_cycle env (cycles env (initial url) ! i) \<or> workflowFailed (cycles env (initial url) ! i)"
  shows "workflowFailed (nxt env (cycles env (initial url) ! i))
         \<and> (\<forall>j. i < j \<and> j < length (cycles env (initial url)) \<longrightarrow>
               workflowFailed (cycles env (initial url) ! j)
               \<and> workflowFailed (nxt env (cycles env (initial url) ! j)))
         \<and> workflowFailed (fst (snd (loop env (initial url))))
         \<and> (\<forall>d m. snd (pollWorkflow env url) = Returned d m \<longrightarrow>
               map_of m ''failed'' = Some (PBool True))"
proof -
  let ?cs = "cycles env (initial url)"
  have a: "workflowFailed (nxt env (?cs ! i))"
    using assms(2) by (auto simp: nxt_flag)
  have b: "workflowFailed (?cs ! j)" if "i < j" "j < length ?cs" for j
  proof -
    have "Suc i < length ?cs" using that by simp
    then have "workflowFailed (?cs ! Suc i)" using a cycles_Suc(1) [of i env "initial url"] by simp
    then show ?thesis using flag_kept_in_run [of "Suc i" j env "initial url"] that by simp
  qed
  have ne: "?cs \<noteq> []" using assms(1) by auto
  have c: "workflowFailed (nxt env (last ?cs))"
  proof (cases "i = length ?cs - 1")
    case True
    then show ?thesis using a ne by (simp add: last_conv_nth)
  next
    case False
    then have "workflowFailed (?cs ! (length ?cs - 1))" using b [of "length ?cs - 1"] assms(1) by simp
    then show ?thesis using ne by (simp add: last_conv_nth nxt_flag)
  qed
  then have f: "workflowFailed (fst (snd (loop env (initial url))))"
    using ne by (simp add: loop_final)
  have r: "map_of m ''failed'' = Some (PBool True)" if "snd (pollWorkflow env url) = Returned d m" for d m
    using that f by (auto simp: pollWorkflow_unfold meta_simps split: option.splits)
  show ?thesis using a b f r by (auto simp: nxt_flag)
qed


theorem workflowFailed_sticky_witness:
  "0 < length (cycles three_polls (initial start_url))
   \<and> err_cycle three_polls (cycles three_polls (initial start_url) ! 0)
   \<and> workflowFailed (nxt three_polls (cycles three_polls (initial start_url) ! 0))
   \<and> workflowFailed (cycles three_polls (initial start_url) ! 1)
   \<and> workflowFailed (cycles three_polls (initial start_url) ! 2)
   \<and> workflowFailed (fst (snd (loop three_polls (initial start_url))))
   \<and> returned_field ''failed'' (snd (pollWorkflow three_polls start_url)) = Some (PBool True)"
proof -
  let ?cs = "cycles three_polls (initial start_url)"
  have l: "length ?cs = 3"
    by (simp add: three_polls_cycles)
  then have h1: "0 < length ?cs"
    by simp
  have "err_cycle three_polls (initial start_url)"
    using failing_doc_error
    by (simp add: err_cycle_def fetched_def three_polls_def initial_def start_url_def
        maxConsecutiveErrors_def)
  then have e: "err_cycle three_polls (?cs ! 0)"
    by (simp add: three_polls_cycles)
  then have h2: "err_cycle three_polls (?cs ! 0) \<or> workflowFailed (?cs ! 0)"
    by simp
  note t = workflowFailed_sticky [OF h1 h2]
  from t have later: "\<forall>j. 0 < j \<and> j < length ?cs \<longrightarrow>
      workflowFailed (?cs ! j) \<and> workflowFailed (nxt three_polls (?cs ! j))"
    by blast
  have j1: "workflowFailed (?cs ! 1)"
    using later [rule_format, of 1] l by simp
  have j2: "workflowFailed (?cs ! 2)"
    using later [rule_format, of 2] l by simp
  have f: "fetched three_polls after_second_error = Some (Response 200 finished_doc)"
    by (simp add: fetched_def three_polls_def after_second_error_def failing_doc_def
        maxConsecutiveErrors_def)
  have "finished_doc \<noteq> JNull"
    by (simp add: finished_doc_def)
  then have "ctl_of three_polls (last ?cs) = Next"
    using cycle_response(4) [OF f] by (simp add: three_polls_cycles)
  then have "snd (snd (loop three_polls (initial start_url))) = None"
    by (simp add: loop_result three_polls_cycles)
  then obtain d m where r: "snd (pollWorkflow three_polls start_url) = Returned d m"
    by (simp add: pollWorkflow_unfold)
  then have "map_of m ''failed'' = Some (PBool True)"
    using t by blast
  then have "returned_field ''failed'' (snd (pollWorkflow three_polls start_url)) = Some (PBool True)"
    using r by (simp add: returned_field_def)
  then show ?thesis
    using t h1 e j1 j2 by blast
qed

section \<open>The ceiling on consecutive failures\<close>

text \<open>
  Claim C3, as amended. In any run, when the requests of ten consecutive cycles fail and
  the tenth of them is attempt 998 or an earlier one, exactly one more cycle follows. It
  issues no request and emits \<open>too_many_errors\<close>, the only event of that name in the trace,
  followed by \<open>polling_ended\<close> alone; the run returns with the reason
  \<open>too_many_network_errors\<close> and the final status \<open>network_failure\<close>.
\<close>

theorem too_many_errors_after_ten_failures:
  assumes "i + 10 \<le> length (cycles env (initial url))"
    and "\<forall>j<10. \<exists>e. fetched env (cycles env (initial url) ! (i + j)) = Some (Failed e)"
    and "pollCount (cycles env (initial url) ! (i + 9)) + 2 < maxPolls"
  shows "\<exists>tr d m q. pollWorkflow env url = (tr, Returned d m)
           \<and> length (cycles env (initial url)) = i + 11
           \<and> fetched env (last (cycles env (initial url))) = None
           \<and> length (filter (event_named ''too_many_errors'') tr) = 1
           \<and> after_event ''too_many_errors'' tr = [Emit ''polling_ended'' q]
           \<and> filter is_get (after_event ''too_many_errors'' tr) = []
           \<and> map_of q ''reason'' = Some (PStr ''too_many_network_errors'')
           \<and> map_of q ''finalStatus'' = Some (PStr ''network_failure'')
           \<and> map_of m ''reason'' = Some (PStr ''too_many_network_errors'')"
proof -
  let ?cs = "cycles env (initial url)"
  let ?c = "?cs ! (i + 9)"
  let ?g = "nxt env ?c"
  let ?s = "nxt env ?g"
  let ?t = "now env (ticks ?s) - now env 0"
  have k9: "i + 9 < length ?cs" using assms(1) by simp
  have "(9::nat) < 10" by simp
  then have "\<exists>e. fetched env ?c = Some (Failed e)"
    using assms(2) by blast
  then obtain e where f9: "fetched env ?c = Some (Failed e)" ..
  have inv: "data ?c \<noteq> JNull" "loop_cond ?c"
    using cycles_inv [of ?c env "initial url"] k9 by simp_all
  have "\<forall>k. i \<le> k \<and> k < i + 9 \<longrightarrow> (\<exists>e. fetched env (?cs ! k) = Some (Failed e))"
  proof (intro allI impI)
    fix k assume k: "i \<le> k \<and> k < i + 9"
    then have "k - i < 10" by arith
    then have "\<exists>e. fetched env (?cs ! (i + (k - i))) = Some (Failed e)"
      using assms(2) by blast
    moreover have "i + (k - i) = k" using k by arith
    ultimately show "\<exists>e. fetched env (?cs ! k) = Some (Failed e)" by simp
  qed
  then have "consecutiveErrors ?c = consecutiveErrors (?cs ! i) + (i + 9 - i)"
    using failures_add_up [of i "i + 9" env "initial url"] k9 by simp
  then have ge: "9 \<le> consecutiveErrors ?c" by simp
  have nc: "?g = ?c\<lparr>pollCount := Suc (pollCount ?c), ticks := Suc (Suc (ticks ?c)),
                      consecutiveErrors := Suc (consecutiveErrors ?c)\<rparr>"
    and cn: "ctl_of env ?c = Next"
    using cycle_failed [OF f9 inv(1)] by simp_all
  have gd: "data ?g \<noteq> JNull" and gl: "loop_cond ?g" and gc: "maxConsecutiveErrors \<le> consecutiveErrors ?g"
    and gp: "pollCount ?g = Suc (pollCount ?c)"
    using inv ge assms(3) by (simp_all add: nc loop_cond_def maxConsecutiveErrors_def)
  have k10: "Suc (i + 9) < length ?cs"
    using cycles_more [OF k9 cn gd gl] .
  have g: "?cs ! Suc (i + 9) = ?g"
    using cycles_Suc(1) [OF k10] .
  have gm: "?g \<in> set ?cs"
    using k10 g by (metis nth_mem)
  have gb: "ctl_of env ?g = Break"
    and ga: "acts env ?g = [too_many_errors_event (?g\<lparr>pollCount := Suc (pollCount ?g), ticks := Suc (ticks ?g)\<rparr>)]"
    and gn: "?s = ?g\<lparr>pollCount := Suc (pollCount ?g), ticks := Suc (ticks ?g)\<rparr>"
    using nxt_guard [OF gc, of env] by simp_all
  have len: "Suc (Suc (i + 9)) = length ?cs"
    using cycles_last [OF k10] gb g by simp
  note e = ended_by_break [OF gm gb]
  have fn: "fetched env (last ?cs) = None"
    using gc by (simp add: e(1) fetched_def)
  have er: "endReason ?s = (''too_many_network_errors'', ''network_failure'')"
    using gl gc gp assms(3) by (simp add: gn endReason_def loop_cond_def)
  obtain q where q: "polling_ended_event ?s ?t = Emit ''polling_ended'' q"
    and qr: "map_of q ''reason'' = Some (PStr (fst (endReason ?s)))"
      "map_of q ''finalStatus'' = Some (PStr (snd (endReason ?s)))"
    using polling_ended_simps [of ?s ?t] by blast
  define pre where "pre = concat (map (acts env) (butlast ?cs))"
  define w where "w = too_many_errors_event (?g\<lparr>pollCount := Suc (pollCount ?g), ticks := Suc (ticks ?g)\<rparr>)"
  define tr where "tr = pre @ w # [Emit ''polling_ended'' q]"
  have clean: "\<forall>a \<in> set pre. \<not> event_named ''too_many_errors'' a"
    using earlier_cycles_clean(2) [of _ env "initial url"] by (auto simp: pre_def)
  have w: "event_named ''too_many_errors'' w" by (simp add: w_def)
  have p: "pollWorkflow env url = (tr, Returned (data ?s) (meta ?s ?t))"
    using e(2) by (simp add: tr_def pre_def w_def ga q)
  have one: "length (filter (event_named ''too_many_errors'') tr) = 1"
    using clean w by (simp add: tr_def)
  have aft: "after_event ''too_many_errors'' tr = [Emit ''polling_ended'' q]"
    unfolding tr_def using clean w by (rule after_event_split)
  show ?thesis
    using p len fn one aft qr er by (auto simp: meta_simps)
qed

theorem too_many_errors_after_ten_failures_witness:
  "0 + 10 \<le> length (cycles always_failing (initial start_url))
   \<and> map (fetched always_failing) (take 10 (cycles always_failing (initial start_url)))
       = replicate 10 (Some (Failed reset_error))
   \<and> pollCount (cycles always_failing (initial start_url) ! (0 + 9)) + 2 < maxPolls
   \<and> (\<exists>tr d m q. pollWorkflow always_failing start_url = (tr, Returned d m)
           \<and> length (cycles always_failing (initial start_url)) = 0 + 11
           \<and> fetched always_failing (last (cycles always_failing (initial start_url))) = None
           \<and> length (filter (event_named ''too_many_errors'') tr) = 1
           \<and> after_event ''too_many_errors'' tr = [Emit ''polling_ended'' q]
           \<and> filter is_get (after_event ''too_many_errors'' tr) = []
           \<and> map_of q ''reason'' = Some (PStr ''too_many_network_errors'')
           \<and> map_of q ''finalStatus'' = Some (PStr ''network_failure'')
           \<and> map_of m ''reason'' = Some (PStr ''too_many_network_errors''))"
proof -
  let ?cs = "cycles always_failing (initial start_url)"
  have h1: "0 + 10 \<le> length ?cs"
    by (simp add: failing_cycles)
  have h2: "\<forall>j<10. \<exists>e. fetched always_failing (?cs ! (0 + j)) = Some (Failed e)"
  proof (intro allI impI)
    fix j :: nat assume j: "j < 10"
    then have "?cs ! (0 + j) = after_failures j"
      by (simp add: failing_cycles nth_map_upt)
    then show "\<exists>e. fetched always_failing (?cs ! (0 + j)) = Some (Failed e)"
      using failing_fetched [OF j] by simp
  qed
  have "?cs ! (0 + 9) = after_failures 9"
    by (simp add: failing_cycles nth_map_upt)
  then have h3: "pollCount (?cs ! (0 + 9)) + 2 < maxPolls"
    by (simp add: maxPolls_def)
  have "map (fetched always_failing) (take 10 ?cs)
          = map (\<lambda>k. fetched always_failing (after_failures k)) [0..<10]"
    by (simp add: failing_cycles take_map)
  also have "\<dots> = map (\<lambda>k. Some (Failed reset_error)) [0..<10]"
  proof (rule map_cong [OF refl])
    fix k assume "k \<in> set [0..<10]"
    then have "k < 10" by (simp only: set_upt atLeastLessThan_iff)
    then show "fetched always_failing (after_failures k) = Some (Failed reset_error)"
      by (rule failing_fetched)
  qed
  also have "\<dots> = replicate 10 (Some (Failed reset_error))"
    by (simp add: numeral_eq_Suc)
  finally have h4: "map (fetched always_failing) (take 10 ?cs)
      = replicate 10 (Some (Failed reset_error))" .
  show ?thesis
    using too_many_errors_after_ten_failures [OF h1 h2 h3] h1 h3 h4 by blast
qed

text \<open>
  The claim as first stated has no bound on the attempt number. In the run \<open>long_run\<close> the
  requests of attempts 991 to 1000 fail: the loop test then stops the loop at the attempt
  ceiling, no \<open>too_many_errors\<close> event is emitted and the reason is \<open>max_polls_reached\<close>.
\<close>

theorem ten_failures_at_ceiling_counterexample:
  "map (fetched long_run) (drop 990 (cycles long_run (initial start_url)))
     = replicate 10 (Some (Failed reset_error))
   \<and> filter (event_named ''too_many_errors'') (fst (pollWorkflow long_run start_url)) = []
   \<and> returned_field ''reason'' (snd (pollWorkflow long_run start_url))
       = Some (PStr ''max_polls_reached'')
   \<and> returned_field ''totalPolls'' (snd (pollWorkflow long_run start_url)) = Some (PNum 1000)"
proof -
  have "map (fetched long_run) (drop 990 (cycles long_run (initial start_url)))
          = map (\<lambda>k. fetched long_run (long_state k)) [990..<1000]"
    by (simp add: long_cycles drop_map)
  also have "\<dots> = map (\<lambda>k. Some (Failed reset_error)) [990..<1000]"
  proof (rule map_cong [OF refl])
    fix k assume "k \<in> set [990..<1000]"
    then have "990 \<le> k" "k < 1000" by (simp_all only: set_upt atLeastLessThan_iff)
    then show "fetched long_run (long_state k) = Some (Failed reset_error)"
      using long_fetched [of k] by simp
  qed
  also have "\<dots> = replicate 10 (Some (Failed reset_error))"
    by (simp add: numeral_eq_Suc)
  finally have a: "map (fetched long_run) (drop 990 (cycles long_run (initial start_url)))
     = replicate 10 (Some (Failed reset_error))" .
  show ?thesis
    using a long_no_guard
    by (simp add: long_result returned_field_def meta_simps long_reason)
qed

section \<open>The final summary\<close>

text \<open>
  Claim C5 asks that every run ends with one \<open>polling_ended\<close> event and returns the last
  document with its \<open>_meta\<close> block. When the first request resolves with the body
  \<open>null\<close>, the run emits \<open>step\<close>, issues the request, and is then left by a
  \<open>TypeError\<close> raised inside the \<open>catch\<close> block: no \<open>polling_ended\<close> event, no returned
  value.
\<close>

theorem null_body_ends_without_summary:
  "snd (pollWorkflow null_body start_url) = Thrown null_url_error
   \<and> length (fst (pollWorkflow null_body start_url)) = 2
   \<and> event_named ''step'' (fst (pollWorkflow null_body start_url) ! 0)
   \<and> fst (pollWorkflow null_body start_url) ! 1 = Get ''https://n8n.srv903010.hstgr.cloud/webhook/abc''
   \<and> filter (event_named ''polling_ended'') (fst (pollWorkflow null_body start_url)) = []"
proof -
  have f: "fetched null_body (initial start_url) = Some (Response 200 JNull)"
    by (simp add: fetched_def null_body_def initial_def start_url_def maxConsecutiveErrors_def)
  have l: "loop_cond (initial start_url)"
    by (simp add: loop_cond_def initial_def start_url_def maxPolls_def)
  have c: "cycles null_body (initial start_url) = [initial start_url]"
    by (rule cycles_null_step [OF f l])
  have u: "full_url ''https://n8n.srv903010.hstgr.cloud/webhook/abc''
             = ''https://n8n.srv903010.hstgr.cloud/webhook/abc''"
    by code_simp
  obtain e where a: "acts null_body (initial start_url)
     = [e, Get ''https://n8n.srv903010.hstgr.cloud/webhook/abc'']" and e: "event_named ''step'' e"
    using acts_null [OF f] u by (auto simp: initial_def start_url_def)
  have p: "pollWorkflow null_body start_url
     = (concat (map (acts null_body) (cycles null_body (initial start_url))), Thrown null_url_error)"
    using ended_by_throw(1) [of "initial start_url" null_body start_url null_url_error]
      cycle_null(3) [OF f] by (simp add: c)
  have "\<not> event_named ''polling_ended'' e"
    using e by (cases e) auto
  then show ?thesis using e by (simp add: p c a)
qed

text \<open>
  Every run that returns does end as the claim says: its trace is the actions of its cycles,
  none of them a \<open>polling_ended\<close> event, followed by one \<open>polling_ended\<close> event with the
  number of attempts, the elapsed time, the reason and the sticky flag of the final state.
\<close>

lemma returning_run_summary:
  assumes "pollWorkflow env url = (tr, Returned d m)"
  shows "\<exists>s q t. tr = concat (map (acts env) (cycles env (initial url))) @ [Emit ''polling_ended'' q]
           \<and> (\<forall>a \<in> set (concat (map (acts env) (cycles env (initial url)))).
                 \<not> event_named ''polling_ended'' a)
           \<and> s = fst (snd (loop env (initial url))) \<and> d = data s \<and> m = meta s t
           \<and> t = now env (ticks s) - now env 0
           \<and> map_of q ''totalPolls'' = Some (PNum (int (pollCount s)))
           \<and> map_of q ''totalTime'' = Some (PStr (secs t))
           \<and> map_of q ''reason'' = Some (PStr (fst (endReason s)))
           \<and> map_of q ''workflowFailed'' = Some (PBool (workflowFailed s))"
proof -
  let ?s = "fst (snd (loop env (initial url)))"
  let ?t = "now env (ticks ?s) - now env 0"
  obtain q where q: "polling_ended_event ?s ?t = Emit ''polling_ended'' q"
    and qr: "map_of q ''reason'' = Some (PStr (fst (endReason ?s)))"
      "map_of q ''workflowFailed'' = Some (PBool (workflowFailed ?s))"
      "map_of q ''totalPolls'' = Some (PNum (int (pollCount ?s)))"
      "map_of q ''totalTime'' = Some (PStr (secs ?t))"
    using polling_ended_simps [of ?s ?t] by blast
  have n: "\<not> event_named ''polling_ended'' a" if "a \<in> set (acts env c)" "data c \<noteq> JNull" for a c
  proof (cases "fetched env c")
    case None
    show ?thesis
    proof (cases "maxConsecutiveErrors \<le> consecutiveErrors c")
      case True
      then show ?thesis using that by (auto simp: nxt_guard(3))
    next
      case False
      then show ?thesis using None that cycle_no_request(3) [of env c] by auto
    qed
  next
    case (Some r)
    show ?thesis
    proof (cases r)
      case (Failed e)
      then show ?thesis using Some that acts_failed [of env c e] by auto
    next
      case (Response st d')
      show ?thesis
      proof (cases "d' = JNull")
        case True
        then show ?thesis using Some Response that acts_null [of env c st] by auto
      next
        case False
        then show ?thesis
          using Some Response that acts_response [of env c st d'] by (auto split: if_splits)
      qed
    qed
  qed
  have clean: "\<forall>a \<in> set (concat (map (acts env) (cycles env (initial url)))).
                 \<not> event_named ''polling_ended'' a"
    using n cycles_inv [of _ env "initial url"] by auto
  show ?thesis
    using assms q qr clean by (auto simp: pollWorkflow_unfold split: option.splits)
qed

section \<open>Error events\<close>

text \<open>
  Claim C6. In the trace of a run there is one event named \<open>n8n_error_detected\<close> when some
  cycle classifies its document as an error, and none otherwise; the events named
  \<open>error_persisting\<close> are as many as the other such cycles. Read in order, the events of
  these two names are \<open>n8n_error_detected\<close> first and \<open>error_persisting\<close> after it, one per
  cycle with a failing document, each carrying the attempt number and the document of its
  cycle. Such a cycle ends normally: the loop goes on to test the new document, and continues
  exactly when that document has a truthy \<open>executionUrl\<close>, is not finished and the attempt
  ceiling is not reached.
\<close>

theorem error_detected_once:
  "length (filter (event_named ''n8n_error_detected'') (fst (pollWorkflow env url)))
     = (if filter (err_cycle env) (cycles env (initial url)) = [] then 0 else 1)
   \<and> length (filter (event_named ''error_persisting'') (fst (pollWorkflow env url)))
     = length (filter (err_cycle env) (cycles env (initial url))) - 1
   \<and> map event_name (filter is_error_event (fst (pollWorkflow env url)))
     = (case filter (err_cycle env) (cycles env (initial url)) of
          [] \<Rightarrow> []
        | c # cs \<Rightarrow> ''n8n_error_detected'' # replicate (length cs) ''error_persisting'')
   \<and> map (payload_field ''pollCount'') (filter is_error_event (fst (pollWorkflow env url)))
     = map (\<lambda>c. Some (PNum (int (Suc (pollCount c)))))
         (filter (err_cycle env) (cycles env (initial url)))
   \<and> map (payload_field ''data'') (filter is_error_event (fst (pollWorkflow env url)))
     = map (\<lambda>c. Some (PDoc (body env c))) (filter (err_cycle env) (cycles env (initial url)))
   \<and> (\<forall>c \<in> set (cycles env (initial url)). err_cycle env c \<longrightarrow>
         ctl_of env c = Next \<and> data (nxt env c) = body env c
         \<and> (loop_cond (nxt env c) \<longleftrightarrow>
              truthy (getp ''executionUrl'' (body env c)) \<and> \<not> truthy (getp ''finished'' (body env c))
              \<and> Suc (pollCount c) < maxPolls))"
proof -
  let ?tr = "fst (pollWorkflow env url)"
  let ?E = "filter (err_cycle env) (cycles env (initial url))"
  note a = error_events_by_cycle [of env url]
  have n1: "length (filter (event_named ''n8n_error_detected'') ?tr) = (if ?E = [] then 0 else 1)"
    by (subst filter_named_error_events)
      (simp_all add: a error_event_named later_events_named split: list.split)
  have n2: "length (filter (event_named ''error_persisting'') ?tr) = length ?E - 1"
    by (subst filter_named_error_events)
      (simp_all add: a error_event_named later_events_named split: list.split)
  have n3: "map event_name (filter is_error_event ?tr)
     = (case ?E of [] \<Rightarrow> []
        | c # cs \<Rightarrow> ''n8n_error_detected'' # replicate (length cs) ''error_persisting'')"
    using later_event_names [of env] by (simp add: a error_event_fields split: list.split)
  have n4: "map (payload_field ''pollCount'') (filter is_error_event ?tr)
     = map (\<lambda>c. Some (PNum (int (Suc (pollCount c))))) ?E"
    by (simp add: a error_event_fields split: list.split)
  have n5: "map (payload_field ''data'') (filter is_error_event ?tr)
     = map (\<lambda>c. Some (PDoc (body env c))) ?E"
    by (simp add: a error_event_fields split: list.split)
  have b: "ctl_of env c = Next \<and> data (nxt env c) = body env c
         \<and> (loop_cond (nxt env c) \<longleftrightarrow>
              truthy (getp ''executionUrl'' (body env c)) \<and> \<not> truthy (getp ''finished'' (body env c))
              \<and> Suc (pollCount c) < maxPolls)" if "err_cycle env c" for c
  proof -
    from that obtain st d where f: "fetched env c = Some (Response st d)"
      and e: "isError (analyzeN8NResponse d)"
      by (auto simp: err_cycle_def split: option.splits fetch_result.splits)
    have dn: "d \<noteq> JNull" using e by auto
    have bd: "body env c = d" using f by (simp add: body_def)
    show ?thesis
      using cycle_response [OF f dn] iteration_pollCount [of env c]
      by (simp add: bd loop_cond_def nxt_def)
  qed
  show ?thesis using n1 n2 n3 n4 n5 b by simp
qed

theorem error_detected_once_witness:
  "length (filter (event_named ''n8n_error_detected'') (fst (pollWorkflow three_polls start_url))) = 1
   \<and> length (filter (event_named ''error_persisting'') (fst (pollWorkflow three_polls start_url))) = 1
   \<and> map event_name (filter is_error_event (fst (pollWorkflow three_polls start_url)))
       = [''n8n_error_detected'', ''error_persisting'']
   \<and> map (payload_field ''pollCount'') (filter is_error_event (fst (pollWorkflow three_polls start_url)))
       = [Some (PNum 1), Some (PNum 2)]
   \<and> map (payload_field ''data'') (filter is_error_event (fst (pollWorkflow three_polls start_url)))
       = [Some (PDoc failing_doc), Some (PDoc failing_doc)]
   \<and> initial start_url \<in> set (cycles three_polls (initial start_url))
   \<and> err_cycle three_polls (initial start_url)
   \<and> ctl_of three_polls (initial start_url) = Next
   \<and> data (nxt three_polls (initial start_url)) = failing_doc
   \<and> loop_cond (nxt three_polls (initial start_url))"
proof -
  have f0: "fetched three_polls (initial start_url) = Some (Response 200 failing_doc)"
    by (simp add: fetched_def three_polls_def initial_def start_url_def maxConsecutiveErrors_def)
  have f1: "fetched three_polls after_first_error = Some (Response 200 failing_doc)"
    by (simp add: fetched_def three_polls_def after_first_error_def failing_doc_def
        maxConsecutiveErrors_def)
  have f2: "fetched three_polls after_second_error = Some (Response 200 finished_doc)"
    by (simp add: fetched_def three_polls_def after_second_error_def failing_doc_def
        maxConsecutiveErrors_def)
  have e0: "err_cycle three_polls (initial start_url)"
    using failing_doc_error by (simp add: err_cycle_def f0)
  have e1: "err_cycle three_polls after_first_error"
    using failing_doc_error by (simp add: err_cycle_def f1)
  have e2: "\<not> err_cycle three_polls after_second_error"
    using finished_doc_fine by (simp add: err_cycle_def f2)
  have b: "body three_polls (initial start_url) = failing_doc"
    "body three_polls after_first_error = failing_doc"
    by (simp_all add: body_def f0 f1)
  have p: "pollCount (initial start_url) = 0" "pollCount after_first_error = 1"
    by (simp_all add: initial_def after_first_error_def)
  have t: "truthy (getp ''executionUrl'' failing_doc) \<and> \<not> truthy (getp ''finished'' failing_doc)
      \<and> Suc (pollCount (initial start_url)) < maxPolls"
    by (simp add: failing_doc_def initial_def maxPolls_def)
  have m: "initial start_url \<in> set (cycles three_polls (initial start_url))"
    by (simp add: three_polls_cycles)
  show ?thesis
    using error_detected_once [of three_polls start_url] e0 e1 e2 b p t m
    by (simp add: three_polls_cycles)
qed

section \<open>The counter of consecutive failures\<close>

text \<open>
  Claim C7. A cycle whose request fails leaves the counter of consecutive errors one
  higher. A cycle whose request succeeds resets it: the cycle leaves it at 0, or, when the
  body is \<open>null\<close>, at 1, the reset being followed by the count of the \<open>TypeError\<close> with
  which the run then ends. Over consecutive cycles of a run whose requests all fail the
  counter grows by one per cycle.
\<close>

theorem consecutiveErrors_counter:
  "(fetched env s1 = Some (Failed e) \<longrightarrow> consecutiveErrors (nxt env s1) = consecutiveErrors s1 + 1)
   \<and> (fetched env s2 = Some (Response st d) \<and> d \<noteq> JNull \<longrightarrow>
        consecutiveErrors (nxt env s2) = 0 \<and> ctl_of env s2 = Next)
   \<and> (fetched env s3 = Some (Response st' JNull) \<longrightarrow>
        consecutiveErrors (nxt env s3) = 1 \<and> ctl_of env s3 = Throw null_url_error)
   \<and> (i \<le> j \<and> j < length (cycles env (initial url))
        \<and> (\<forall>k. i \<le> k \<and> k < j \<longrightarrow>
              (\<exists>e. fetched env (cycles env (initial url) ! k) = Some (Failed e)))
        \<longrightarrow> consecutiveErrors (cycles env (initial url) ! j)
              = consecutiveErrors (cycles env (initial url) ! i) + (j - i))"
  using nxt_failed_counter [of env s1 e] cycle_response(2,4) [of env s2 st d]
    cycle_null(1,3) [of env s3 st'] failures_add_up [of i j env "initial url"]
  by auto

theorem consecutiveErrors_counter_witness:
  "fetched flaky (after_failures 1) = Some (Failed reset_error)
   \<and> consecutiveErrors (nxt flaky (after_failures 1)) = consecutiveErrors (after_failures 1) + 1
   \<and> fetched flaky (after_failures 2) = Some (Response 200 running_doc)
   \<and> running_doc \<noteq> JNull
   \<and> consecutiveErrors (after_failures 2) = 2
   \<and> consecutiveErrors (nxt flaky (after_failures 2)) = 0
   \<and> fetched flaky recovered = Some (Response 200 JNull)
   \<and> consecutiveErrors (nxt flaky recovered) = 1
   \<and> ctl_of flaky recovered = Throw null_url_error
   \<and> 2 < length (cycles flaky (initial start_url))
   \<and> fetched flaky (cycles flaky (initial start_url) ! 0) = Some (Failed reset_error)
   \<and> fetched flaky (cycles flaky (initial start_url) ! 1) = Some (Failed reset_error)
   \<and> consecutiveErrors (cycles flaky (initial start_url) ! 2)
       = consecutiveErrors (cycles flaky (initial start_url) ! 0) + (2 - 0)"
proof -
  have d: "running_doc \<noteq> JNull" by (simp add: running_doc_def)
  have c: "consecutiveErrors (after_failures 2) = 2" by (simp add: after_failures_def)
  have f: "\<forall>k. 0 \<le> k \<and> k < 2 \<longrightarrow>
         (\<exists>e. fetched flaky (cycles flaky (initial start_url) ! k) = Some (Failed e))"
    using flaky_fetched(1,2) by (auto simp: flaky_cycles less_Suc_eq numeral_2_eq_2)
  have l: "(0::nat) \<le> 2 \<and> 2 < length (cycles flaky (initial start_url))"
    by (simp add: flaky_cycles)
  show ?thesis
    using consecutiveErrors_counter [of flaky "after_failures 1" reset_error "after_failures 2" 200
        running_doc recovered 200 0 2 start_url]
      flaky_fetched d c f l
    by (simp add: flaky_cycles)
qed

section \<open>The attempt counter\<close>

text \<open>
  Claim C8. Every cycle leaves \<open>pollCount\<close> one higher, whatever happens in it; when the
  cycle issues a request, the \<open>step\<close> event that precedes the request already carries the
  raised counter. In a state with a document that is not finished and a counter at the
  ceiling of 1000 the loop stops at once, and the reason is \<open>max_polls_reached\<close> with the
  final status \<open>max_attempts\<close>. A run that returns has made at most 1000 attempts, and
  when it has made 1000 and its last document is not finished its reason is
  \<open>max_polls_reached\<close>.
\<close>

theorem pollCount_every_cycle:
  "pollCount (nxt env s) = pollCount s + 1
   \<and> (fetched env s' = Some r \<longrightarrow>
        (\<exists>u rest. getp ''executionUrl'' (data s') = Some (JStr u)
           \<and> acts env s' =
               step_event (s'\<lparr>pollCount := Suc (pollCount s'), ticks := Suc (ticks s')\<rparr>) (full_url u)
                 (now env (ticks s') - now env 0)
               # Get (full_url u) # rest))
   \<and> (data t \<noteq> JNull \<and> maxPolls \<le> pollCount t \<and> \<not> truthy (getp ''finished'' (data t)) \<longrightarrow>
        loop env t = ([], t, None) \<and> endReason t = (''max_polls_reached'', ''max_attempts''))
   \<and> (pollWorkflow env url = (tr, Returned d m) \<longrightarrow>
        (\<exists>n \<le> maxPolls. map_of m ''totalPolls'' = Some (PNum (int n))
           \<and> (n = maxPolls \<and> \<not> truthy (getp ''finished'' d) \<longrightarrow>
                map_of m ''reason'' = Some (PStr ''max_polls_reached''))))"
proof -
  have a: "pollCount (nxt env s) = pollCount s + 1"
    using iteration_pollCount [of env s] by (simp add: nxt_def)
  have b: "\<exists>u rest. getp ''executionUrl'' (data s') = Some (JStr u)
           \<and> acts env s' =
               step_event (s'\<lparr>pollCount := Suc (pollCount s'), ticks := Suc (ticks s')\<rparr>) (full_url u)
                 (now env (ticks s') - now env 0)
               # Get (full_url u) # rest" if f: "fetched env s' = Some r"
  proof -
    have dn: "data s' \<noteq> JNull" using f by (auto simp: fetched_Some_iff)
    show ?thesis
    proof (cases r)
      case (Failed e)
      then show ?thesis using f dn acts_failed [of env s' e] by auto
    next
      case (Response st d')
      show ?thesis
      proof (cases "d' = JNull")
        case True
        then show ?thesis using f Response acts_null [of env s' st] by auto
      next
        case False
        then show ?thesis using f Response acts_response [of env s' st d'] by auto
      qed
    qed
  qed
  have c: "loop env t = ([], t, None) \<and> endReason t = (''max_polls_reached'', ''max_attempts'')"
    if "data t \<noteq> JNull \<and> maxPolls \<le> pollCount t \<and> \<not> truthy (getp ''finished'' (data t))"
    using that by (subst loop_unfold) (simp add: loop_cond_def endReason_def)
  have d: "\<exists>n \<le> maxPolls. map_of m ''totalPolls'' = Some (PNum (int n))
           \<and> (n = maxPolls \<and> \<not> truthy (getp ''finished'' d) \<longrightarrow>
                map_of m ''reason'' = Some (PStr ''max_polls_reached''))"
    if pw: "pollWorkflow env url = (tr, Returned d m)"
  proof -
    let ?s = "fst (snd (loop env (initial url)))"
    obtain t' where "d = data ?s" "m = meta ?s t'"
      using returning_run_summary [OF pw] by blast
    then show ?thesis
      using final_pollCount [of env url]
      by (intro exI [of _ "pollCount ?s"]) (simp add: meta_simps endReason_def)
  qed
  show ?thesis using a b c d by blast
qed

theorem pollCount_every_cycle_witness:
  "pollCount (nxt long_run (long_state 5)) = pollCount (long_state 5) + 1
   \<and> fetched long_run (long_state 995) = Some (Failed reset_error)
   \<and> (\<exists>u rest. getp ''executionUrl'' (data (long_state 995)) = Some (JStr u)
         \<and> acts long_run (long_state 995) =
             step_event (long_state 995\<lparr>pollCount := Suc (pollCount (long_state 995)),
                                        ticks := Suc (ticks (long_state 995))\<rparr>) (full_url u)
               (now long_run (ticks (long_state 995)) - now long_run 0)
             # Get (full_url u) # rest)
   \<and> data (long_state 1000) \<noteq> JNull \<and> maxPolls \<le> pollCount (long_state 1000)
   \<and> \<not> truthy (getp ''finished'' (data (long_state 1000)))
   \<and> loop long_run (long_state 1000) = ([], long_state 1000, None)
   \<and> endReason (long_state 1000) = (''max_polls_reached'', ''max_attempts'')
   \<and> pollWorkflow long_run start_url
       = (fst (pollWorkflow long_run start_url),
          Returned running_doc
            (meta (long_state 1000) (now long_run (ticks (long_state 1000)) - now long_run 0)))
   \<and> map_of (meta (long_state 1000) (now long_run (ticks (long_state 1000)) - now long_run 0))
        ''totalPolls'' = Some (PNum (int maxPolls))
   \<and> \<not> truthy (getp ''finished'' running_doc)
   \<and> map_of (meta (long_state 1000) (now long_run (ticks (long_state 1000)) - now long_run 0))
        ''reason'' = Some (PStr ''max_polls_reached'')"
proof -
  let ?m = "meta (long_state 1000) (now long_run (ticks (long_state 1000)) - now long_run 0)"
  have h0: "fetched long_run (long_state 995) = Some (Failed reset_error)"
    using long_fetched [of 995] by simp
  have h1: "data (long_state 1000) \<noteq> JNull \<and> maxPolls \<le> pollCount (long_state 1000)
      \<and> \<not> truthy (getp ''finished'' (data (long_state 1000)))"
    by (simp add: running_doc_props maxPolls_def)
  have h2: "pollWorkflow long_run start_url
      = (fst (pollWorkflow long_run start_url), Returned running_doc ?m)"
    by (simp add: long_result)
  have tp: "map_of ?m ''totalPolls'' = Some (PNum (int maxPolls))"
    by (simp add: meta_simps maxPolls_def)
  note t = pollCount_every_cycle [of long_run "long_state 5" "long_state 995" "Failed reset_error"
      "long_state 1000" start_url "fst (pollWorkflow long_run start_url)" running_doc ?m]
  from t h2 obtain n where n: "n \<le> maxPolls" "map_of ?m ''totalPolls'' = Some (PNum (int n))"
    "n = maxPolls \<and> \<not> truthy (getp ''finished'' running_doc) \<longrightarrow>
       map_of ?m ''reason'' = Some (PStr ''max_polls_reached'')"
    by blast
  from n(2) tp have "n = maxPolls" by simp
  then have r: "map_of ?m ''reason'' = Some (PStr ''max_polls_reached'')"
    using n(3) running_doc_props(3) by simp
  show ?thesis
    using t h0 h1 h2 tp r running_doc_props(3) by blast
qed

section \<open>The response classifier\<close>

text \<open>
  Claim C9, as amended. The classifier is total. It answers \<open>none\<close> for every value that
  is not an object or an array. For an object or array it looks at the lowercased
  serialization and takes the first marker that is present, in this order: the exit-code
  marker gives \<open>workflow_error\<close>, critical; else the marker of a process finished with an
  error gives \<open>process_error\<close>, critical; else a timeout marker gives \<open>n8n_timeout\<close>,
  warning; with no marker the answer is \<open>none\<close>.
\<close>

theorem analyzeN8NResponse_classification:
  "(\<not> is_object d \<longrightarrow> analyzeN8NResponse d = no_error)
   \<and> (is_object d1 \<and> sublist ''exit code: 1'' (toLowerCase (stringify d1)) \<longrightarrow>
        isError (analyzeN8NResponse d1)
        \<and> errorType (analyzeN8NResponse d1) = Some ''workflow_error''
        \<and> severity (analyzeN8NResponse d1) = Some ''critical'')
   \<and> (is_object d2 \<and> \<not> sublist ''exit code: 1'' (toLowerCase (stringify d2))
        \<and> sublist ''process finished with an error'' (toLowerCase (stringify d2)) \<longrightarrow>
        isError (analyzeN8NResponse d2)
        \<and> errorType (analyzeN8NResponse d2) = Some ''process_error''
        \<and> severity (analyzeN8NResponse d2) = Some ''critical'')
   \<and> (is_object d3 \<and> \<not> sublist ''exit code: 1'' (toLowerCase (stringify d3))
        \<and> \<not> sublist ''process finished with an error'' (toLowerCase (stringify d3))
        \<and> (sublist ''timeout'' (toLowerCase (stringify d3))
             \<or> sublist ''timed out'' (toLowerCase (stringify d3))) \<longrightarrow>
        isError (analyzeN8NResponse d3)
        \<and> errorType (analyzeN8NResponse d3) = Some ''n8n_timeout''
        \<and> severity (analyzeN8NResponse d3) = Some ''warning'')
   \<and> (is_object d4 \<and> \<not> sublist ''exit code: 1'' (toLowerCase (stringify d4))
        \<and> \<not> sublist ''process finished with an error'' (toLowerCase (stringify d4))
        \<and> \<not> sublist ''timeout'' (toLowerCase (stringify d4))
        \<and> \<not> sublist ''timed out'' (toLowerCase (stringify d4)) \<longrightarrow>
        analyzeN8NResponse d4 = no_error)"
  by (simp add: analyzeN8NResponse_def Let_def str_includes_sublist)

theorem analyzeN8NResponse_classification_witness:
  "\<not> is_object (JStr ''exit code: 1'') \<and> analyzeN8NResponse (JStr ''exit code: 1'') = no_error
   \<and> is_object failing_doc \<and> sublist ''exit code: 1'' (toLowerCase (stringify failing_doc))
   \<and> errorType (analyzeN8NResponse failing_doc) = Some ''workflow_error''
   \<and> severity (analyzeN8NResponse failing_doc) = Some ''critical''
   \<and> is_object process_doc \<and> \<not> sublist ''exit code: 1'' (toLowerCase (stringify process_doc))
   \<and> sublist ''process finished with an error'' (toLowerCase (stringify process_doc))
   \<and> errorType (analyzeN8NResponse process_doc) = Some ''process_error''
   \<and> severity (analyzeN8NResponse process_doc) = Some ''critical''
   \<and> is_object timeout_doc \<and> sublist ''timed out'' (toLowerCase (stringify timeout_doc))
   \<and> errorType (analyzeN8NResponse timeout_doc) = Some ''n8n_timeout''
   \<and> severity (analyzeN8NResponse timeout_doc) = Some ''warning''
   \<and> is_object running_doc \<and> analyzeN8NResponse running_doc = no_error"
proof -
  have o: "\<not> is_object (JStr ''exit code: 1'')" "is_object failing_doc" "is_object process_doc"
    "is_object timeout_doc" "is_object running_doc"
    by (simp_all add: failing_doc_def process_doc_def timeout_doc_def running_doc_def)
  have 1: "str_includes (toLowerCase (stringify failing_doc)) ''exit code: 1''"
    by code_simp
  have 2: "\<not> str_includes (toLowerCase (stringify process_doc)) ''exit code: 1''"
    "str_includes (toLowerCase (stringify process_doc)) ''process finished with an error''"
    by code_simp+
  have 3: "\<not> str_includes (toLowerCase (stringify timeout_doc)) ''exit code: 1''"
    "\<not> str_includes (toLowerCase (stringify timeout_doc)) ''process finished with an error''"
    "str_includes (toLowerCase (stringify timeout_doc)) ''timed out''"
    by code_simp+
  have 4: "\<not> str_includes (toLowerCase (stringify running_doc)) ''exit code: 1''"
    "\<not> str_includes (toLowerCase (stringify running_doc)) ''process finished with an error''"
    "\<not> str_includes (toLowerCase (stringify running_doc)) ''timeout''"
    "\<not> str_includes (toLowerCase (stringify running_doc)) ''timed out''"
    by code_simp+
  show ?thesis
    using analyzeN8NResponse_classification [of "JStr ''exit code: 1''" failing_doc process_doc
        timeout_doc running_doc] o 1 2 3 4
    by (simp add: str_includes_sublist)
qed

text \<open>
  The claim as first stated gives \<open>process_error\<close> to every document with the second
  marker. A document that holds the first two markers is a \<open>workflow_error\<close>.
\<close>

theorem analyzeN8NResponse_priority_counterexample:
  "is_object both_markers
   \<and> sublist ''process finished with an error'' (toLowerCase (stringify both_markers))
   \<and> errorType (analyzeN8NResponse both_markers) = Some ''workflow_error''
   \<and> errorType (analyzeN8NResponse both_markers) \<noteq> Some ''process_error''"
proof -
  have a: "str_includes (toLowerCase (stringify both_markers)) ''process finished with an error''"
    by code_simp
  have b: "errorType (analyzeN8NResponse both_markers) = Some ''workflow_error''"
    by code_simp
  show ?thesis using a b by (simp add: str_includes_sublist both_markers_def)
qed

section \<open>A document without a locator\<close>

text \<open>
  Claim C10. When the request of a cycle numbered below the attempt ceiling resolves with a
  document whose \<open>finished\<close> is \<open>false\<close> and whose \<open>executionUrl\<close> is missing or empty,
  that cycle is the last one: the trace ends with the actions of that cycle, which hold its
  single request, and \<open>polling_ended\<close>. The run returns the document, and both the event
  and the \<open>_meta\<close> block give the reason \<open>interrupted\<close> and no success.
\<close>

theorem url_missing_interrupts:
  assumes "c \<in> set (cycles env (initial url))"
    and "fetched env c = Some (Response st d)"
    and "getp ''finished'' d = Some (JBool False)"
    and "getp ''executionUrl'' d = None \<or> getp ''executionUrl'' d = Some (JStr [])"
    and "Suc (pollCount c) < maxPolls"
  shows "\<exists>tr m q. pollWorkflow env url = (tr, Returned d m)
           \<and> last (cycles env (initial url)) = c
           \<and> tr = concat (map (acts env) (butlast (cycles env (initial url)))) @ acts env c
                   @ [Emit ''polling_ended'' q]
           \<and> length (filter is_get (acts env c)) = 1
           \<and> map_of q ''reason'' = Some (PStr ''interrupted'')
           \<and> map_of q ''finalStatus'' = Some (PStr ''interrupted'')
           \<and> map_of q ''success'' = Some (PBool False)
           \<and> map_of m ''reason'' = Some (PStr ''interrupted'')
           \<and> map_of m ''success'' = Some (PBool False)"
proof -
  let ?s = "nxt env c"
  let ?t = "now env (ticks ?s) - now env 0"
  have dn: "d \<noteq> JNull" using assms(3) by auto
  have nf: "\<not> truthy (getp ''finished'' d)" using assms(3) by simp
  have nu: "\<not> truthy (getp ''executionUrl'' d)" using assms(4) by auto
  have nx: "data ?s = d" "consecutiveErrors ?s = 0" "ctl_of env c = Next"
    using cycle_response [OF assms(2) dn] by auto
  have pc: "pollCount ?s = Suc (pollCount c)"
    using iteration_pollCount [of env c] by (simp add: nxt_def)
  have nl: "\<not> loop_cond ?s" using nx(1) nu by (simp add: loop_cond_def)
  note e = ended_last_cycle [OF assms(1) nx(3) nl]
  have er: "endReason ?s = (''interrupted'', ''interrupted'')"
    using nx nf pc assms(5) by (simp add: endReason_def maxConsecutiveErrors_def)
  obtain q where q: "polling_ended_event ?s ?t = Emit ''polling_ended'' q"
    and qr: "map_of q ''reason'' = Some (PStr (fst (endReason ?s)))"
      "map_of q ''finalStatus'' = Some (PStr (snd (endReason ?s)))"
      "map_of q ''success'' = Some (PBool (getp ''finished'' (data ?s) = Some (JBool True)))"
    using polling_ended_simps [of ?s ?t] by blast
  have g: "length (filter is_get (acts env c)) = 1"
    using acts_response [OF assms(2) dn] by auto
  show ?thesis
    using e(1,3) q qr er g nx(1) assms(3) by (auto simp: meta_simps)
qed

theorem url_missing_interrupts_witness:
  "initial start_url \<in> set (cycles lost_url (initial start_url))
   \<and> fetched lost_url (initial start_url) = Some (Response 200 (JObj [(''finished'', JBool False)]))
   \<and> getp ''finished'' (JObj [(''finished'', JBool False)]) = Some (JBool False)
   \<and> getp ''executionUrl'' (JObj [(''finished'', JBool False)]) = None
   \<and> Suc (pollCount (initial start_url)) < maxPolls
   \<and> (\<exists>tr m q. pollWorkflow lost_url start_url = (tr, Returned (JObj [(''finished'', JBool False)]) m)
           \<and> last (cycles lost_url (initial start_url)) = initial start_url
           \<and> tr = concat (map (acts lost_url) (butlast (cycles lost_url (initial start_url))))
                   @ acts lost_url (initial start_url) @ [Emit ''polling_ended'' q]
           \<and> length (filter is_get (acts lost_url (initial start_url))) = 1
           \<and> map_of q ''reason'' = Some (PStr ''interrupted'')
           \<and> map_of q ''finalStatus'' = Some (PStr ''interrupted'')
           \<and> map_of q ''success'' = Some (PBool False)
           \<and> map_of m ''reason'' = Some (PStr ''interrupted'')
           \<and> map_of m ''success'' = Some (PBool False))"
proof -
  let ?d = "JObj [(''finished'', JBool False)]"
  have h2: "fetched lost_url (initial start_url) = Some (Response 200 ?d)"
    by (simp add: fetched_def lost_url_def initial_def start_url_def maxConsecutiveErrors_def)
  have l: "loop_cond (initial start_url)"
    by (simp add: loop_cond_def initial_def start_url_def maxPolls_def)
  have h1: "initial start_url \<in> set (cycles lost_url (initial start_url))"
    using cycles_response_step(1) [OF h2 _ l] by simp
  have h3: "getp ''finished'' ?d = Some (JBool False)" by simp
  have h4: "getp ''executionUrl'' ?d = None \<or> getp ''executionUrl'' ?d = Some (JStr [])" by simp
  have h5: "Suc (pollCount (initial start_url)) < maxPolls"
    by (simp add: initial_def maxPolls_def)
  show ?thesis
    using url_missing_interrupts [OF h1 h2 h3 h4 h5] h1 h2 h5 by simp
qed

end
